theory Spec2Isabelle
  imports Main "HOL-Library.Char_ord" "HOL-Library.List_Lexorder" "HOL-Library.Sublist"
begin

section \<open>JavaScript values\<close>

text \<open>
  The validators of \<^verbatim>\<open>src/lib/validation.ts\<close> probe their arguments dynamically
  (\<^verbatim>\<open>typeof\<close>, truthiness, property reads), so parsed TOML and JSON data is modelled
  as a datatype of JavaScript values. A number is kept as the decimal text that
  \<^verbatim>\<open>String\<close> gives it (\<^verbatim>\<open>42\<close>, \<^verbatim>\<open>0.5\<close>, \<^verbatim>\<open>1e+21\<close>, \<^verbatim>\<open>NaN\<close>), which is all the
  source observes of a number besides its type; that text is \<^verbatim>\<open>0\<close> or \<^verbatim>\<open>NaN\<close> exactly
  for the falsy numbers. An object is the list of its own enumerable properties in
  enumeration order. A character stands for one code unit below 256.
\<close>

datatype JsValue =
    JUndefined
  | JNull
  | JBool bool
  | JNum string
  | JStr string
  | JArr "JsValue list"
  | JObj "(string \<times> JsValue) list"

text \<open>Thrown values: an \<^verbatim>\<open>Error\<close> or a \<^verbatim>\<open>TypeError\<close>, with its message.\<close>

datatype error = Error string | TypeError string

fun truthy :: "JsValue \<Rightarrow> bool" where
  "truthy JUndefined = False"
| "truthy JNull = False"
| "truthy (JBool b) = b"
| "truthy (JNum n) = (n \<noteq> ''0'' \<and> n \<noteq> ''NaN'')"
| "truthy (JStr s) = (s \<noteq> [])"
| "truthy (JArr xs) = True"
| "truthy (JObj kvs) = True"

fun typeof :: "JsValue \<Rightarrow> string" where
  "typeof JUndefined = ''undefined''"
| "typeof JNull = ''object''"
| "typeof (JBool b) = ''boolean''"
| "typeof (JNum n) = ''number''"
| "typeof (JStr s) = ''string''"
| "typeof (JArr xs) = ''object''"
| "typeof (JObj kvs) = ''object''"

definition digitChar :: "nat \<Rightarrow> char" where
  "digitChar d = ''0123456789'' ! d"

text \<open>
  Decimal rendering of a natural number, as a template literal or \<^verbatim>\<open>String\<close> gives it.
  It is applied to line numbers, array indices and array lengths only, all far below
  \<open>10\<^sup>2\<^sup>1\<close>, where JavaScript changes to exponent notation.
\<close>

function showNat :: "nat \<Rightarrow> string" where
  "showNat n = (if n < 10 then [digitChar n] else showNat (n div 10) @ [digitChar (n mod 10)])"
  by pat_completeness auto
termination
  by (relation "measure id") auto

declare showNat.simps [simp del]

fun joinWith :: "string \<Rightarrow> string list \<Rightarrow> string" where
  "joinWith sep [] = []"
| "joinWith sep [x] = x"
| "joinWith sep (x # y # ys) = x @ sep @ joinWith sep (y # ys)"

text \<open>
  \<^verbatim>\<open>String(v)\<close>, the coercion \<^verbatim>\<open>RegExp.prototype.test\<close> applies to its argument;
  \<open>None\<close> when it throws a \<^verbatim>\<open>TypeError\<close>. Parsed data holds no functions, so an
  object converts to \<^verbatim>\<open>[object Object]\<close> through the inherited \<^verbatim>\<open>toString\<close>, unless
  an own property of that name hides it, when the conversion throws. An array joins the
  conversions of its elements with commas.
\<close>

fun jsToString :: "JsValue \<Rightarrow> string option" where
  "jsToString JUndefined = Some ''undefined''"
| "jsToString JNull = Some ''null''"
| "jsToString (JBool b) = Some (if b then ''true'' else ''false'')"
| "jsToString (JNum n) = Some n"
| "jsToString (JStr s) = Some s"
| "jsToString (JArr xs) =
     map_option (joinWith '','')
       (those (map (\<lambda>x. if x = JUndefined \<or> x = JNull then Some [] else jsToString x) xs))"
| "jsToString (JObj kvs) =
     (if ''toString'' \<in> fst ` set kvs then None else Some ''[object Object]'')"

definition cannotConvert :: error where
  "cannotConvert = TypeError ''Cannot convert object to primitive value''"

text \<open>
  Own enumerable property names, as \<^verbatim>\<open>Object.keys\<close> and \<^verbatim>\<open>for ... in\<close> list them.
  The source enumerates only values that passed its \<^verbatim>\<open>typeof x === "object"\<close> guard.
\<close>

fun ownKeys :: "JsValue \<Rightarrow> string list" where
  "ownKeys (JObj kvs) = map fst kvs"
| "ownKeys (JArr xs) = map showNat [0..<length xs]"
| "ownKeys v = []"

text \<open>
  A property read \<^verbatim>\<open>v[k]\<close>. The source reads properties only of values that passed
  the object guard; a missing property is \<^verbatim>\<open>undefined\<close>.
\<close>

fun getProp :: "JsValue \<Rightarrow> string \<Rightarrow> JsValue" where
  "getProp (JObj kvs) k = (case map_of kvs k of None \<Rightarrow> JUndefined | Some v \<Rightarrow> v)"
| "getProp (JArr xs) k =
     (if k = ''length'' then JNum (showNat (length xs))
      else (case find (\<lambda>i. showNat i = k) [0..<length xs] of
              None \<Rightarrow> JUndefined
            | Some i \<Rightarrow> xs ! i))"
| "getProp v k = JUndefined"

fun isArray :: "JsValue \<Rightarrow> bool" where
  "isArray (JArr xs) = True"
| "isArray v = False"

section \<open>Regular expressions\<close>

text \<open>
  The regular expression literals of the source are kept as data. \<open>rmatch r s\<close> says
  that the whole of \<open>s\<close> belongs to the language of \<open>r\<close>, which is what
  \<^verbatim>\<open>/^r$/.test(s)\<close> decides.
\<close>

datatype rx = Cls "char \<Rightarrow> bool" | Eps | Seq rx rx | Alt rx rx | Star rx

function star_match :: "(string \<Rightarrow> bool) \<Rightarrow> string \<Rightarrow> bool" where
  "star_match f s =
     (if s = [] then True
      else list_ex (\<lambda>i. f (take (Suc i) s) \<and> star_match f (drop (Suc i) s)) [0..<length s])"
  by pat_completeness auto
termination
  by (relation "measure (\<lambda>(f, s). length s)") auto

declare star_match.simps [simp del]

primrec rmatch :: "rx \<Rightarrow> string \<Rightarrow> bool" where
  "rmatch (Cls p) s = (case s of [c] \<Rightarrow> p c | _ \<Rightarrow> False)"
| "rmatch Eps s = (s = [])"
| "rmatch (Seq a b) s =
     list_ex (\<lambda>i. rmatch a (take i s) \<and> rmatch b (drop i s)) [0..<Suc (length s)]"
| "rmatch (Alt a b) s = (rmatch a s \<or> rmatch b s)"
| "rmatch (Star a) s = star_match (rmatch a) s"

declare rmatch.simps(1) [simp del] rmatch.simps(3) [simp del] rmatch.simps(5) [simp del]

definition Plus :: "rx \<Rightarrow> rx" where
  "Plus r = Seq r (Star r)"

definition Opt :: "rx \<Rightarrow> rx" where
  "Opt r = Alt r Eps"

primrec Lit :: "string \<Rightarrow> rx" where
  "Lit [] = Eps"
| "Lit (c # cs) = Seq (Cls (\<lambda>x. x = c)) (Lit cs)"

declare Lit.simps [simp del]

text \<open>A pattern anchored with \<^verbatim>\<open>^\<close> only: some prefix of the input matches.\<close>

definition rmatch_prefix :: "rx \<Rightarrow> string \<Rightarrow> bool" where
  "rmatch_prefix r s = list_ex (\<lambda>i. rmatch r (take i s)) [0..<Suc (length s)]"

text \<open>\<^verbatim>\<open>pattern.test(v)\<close> for a pattern anchored at both ends and any value \<open>v\<close>.\<close>

definition regexTest :: "rx \<Rightarrow> JsValue \<Rightarrow> error + bool" where
  "regexTest r v = (case jsToString v of None \<Rightarrow> Inl cannotConvert | Some s \<Rightarrow> Inr (rmatch r s))"

definition inRange :: "char \<Rightarrow> char \<Rightarrow> char \<Rightarrow> bool" where
  "inRange lo hi c = (lo \<le> c \<and> c \<le> hi)"

definition isDigit :: "char \<Rightarrow> bool" where
  "isDigit c = inRange CHR ''0'' CHR ''9'' c"

text \<open>The class \<^verbatim>\<open>[a-z0-9\-]\<close>.\<close>

definition idClass :: "char \<Rightarrow> bool" where
  "idClass c = (inRange CHR ''a'' CHR ''z'' c \<or> inRange CHR ''0'' CHR ''9'' c \<or> c = CHR ''-'')"

text \<open>\<^verbatim>\<open>const EXTENSION_ID_PATTERN = /^[a-z0-9\-]+$/;\<close>\<close>

definition EXTENSION_ID_PATTERN :: rx where
  "EXTENSION_ID_PATTERN = Plus (Cls idClass)"

section \<open>validateExtensionsToml\<close>

definition topLevelIdError :: "string \<Rightarrow> error" where
  \<open>topLevelIdError extensionId =
     Error (''Extension IDs must only consist of lowercase letters, numbers, and hyphens ('-'): "''
            @ extensionId @ ''".'')\<close>

definition missingSectionError :: error where
  "missingSectionError = Error ''Missing or invalid extensions section''"

text \<open>The first loop, over \<^verbatim>\<open>Object.keys(extensionsToml)\<close>: it throws at the first bad key.\<close>

fun checkTopLevelIds :: "string list \<Rightarrow> error + unit" where
  "checkTopLevelIds [] = Inr ()"
| "checkTopLevelIds (extensionId # rest) =
     (if \<not> rmatch EXTENSION_ID_PATTERN extensionId then Inl (topLevelIdError extensionId)
      else checkTopLevelIds rest)"

text \<open>One iteration of the loop over \<^verbatim>\<open>extensions.extensions\<close>; \<open>None\<close> when nothing is thrown.\<close>

definition checkExtension :: "JsValue \<Rightarrow> string \<Rightarrow> error option" where
  "checkExtension exts extensionId =
     (if \<not> rmatch EXTENSION_ID_PATTERN extensionId then
        Some (Error (''Invalid extension ID: '' @ extensionId
                     @ ''. Must contain only lowercase letters, numbers, and hyphens''))
      else
        let extension = getProp exts extensionId in
        if \<not> truthy extension \<or> typeof extension \<noteq> ''object'' then
          Some (Error (''Extension '' @ extensionId @ '' must be an object''))
        else if \<not> truthy (getProp extension ''version'')
                \<or> typeof (getProp extension ''version'') \<noteq> ''string'' then
          Some (Error (''Extension '' @ extensionId @ '' missing or invalid version''))
        else if \<not> truthy (getProp extension ''source'')
                \<or> typeof (getProp extension ''source'') \<noteq> ''string'' then
          Some (Error (''Extension '' @ extensionId @ '' missing or invalid source''))
        else None)"

fun checkExtensions :: "JsValue \<Rightarrow> string list \<Rightarrow> error + unit" where
  "checkExtensions exts [] = Inr ()"
| "checkExtensions exts (extensionId # rest) =
     (case checkExtension exts extensionId of
        Some e \<Rightarrow> Inl e
      | None \<Rightarrow> checkExtensions exts rest)"

definition validateExtensionsToml :: "JsValue \<Rightarrow> error + unit" where
  "validateExtensionsToml extensionsToml =
     (if \<not> truthy extensionsToml \<or> typeof extensionsToml \<noteq> ''object'' then
        Inl (Error ''extensions.toml must be an object'')
      else
        case checkTopLevelIds (ownKeys extensionsToml) of
          Inl e \<Rightarrow> Inl e
        | Inr u \<Rightarrow>
            let extensions = getProp extensionsToml ''extensions'' in
            if \<not> truthy extensions \<or> typeof extensions \<noteq> ''object'' then
              Inl missingSectionError
            else checkExtensions extensions (ownKeys extensions))"

text \<open>
  What the nested loop demands of one entry of the \<^verbatim>\<open>extensions\<close> section, in the
  words of the specification: an id of the right shape, an object value, and non-empty
  string \<^verbatim>\<open>version\<close> and \<^verbatim>\<open>source\<close>.
\<close>

definition entryPasses :: "JsValue \<Rightarrow> string \<Rightarrow> bool" where
  "entryPasses exts k =
     (rmatch EXTENSION_ID_PATTERN k
      \<and> (\<exists>kvs. getProp exts k = JObj kvs \<or> (\<exists>xs. getProp exts k = JArr xs))
      \<and> (\<exists>v. getProp (getProp exts k) ''version'' = JStr v \<and> v \<noteq> [])
      \<and> (\<exists>s. getProp (getProp exts k) ''source'' = JStr s \<and> s \<noteq> []))"

definition hasSection :: "JsValue \<Rightarrow> bool" where
  "hasSection x =
     ((\<exists>kvs. getProp x ''extensions'' = JObj kvs) \<or> (\<exists>xs. getProp x ''extensions'' = JArr xs))"

section \<open>Selection engine\<close>

text \<open>
  \<^verbatim>\<open>interface ExtensionInfo { id: string; version: string; submodule?: string; path?: string }\<close>
  of \<^verbatim>\<open>src/types\<close>. A registry (\<^verbatim>\<open>ExtensionsToml\<close>) is the list of its entries in the
  order \<^verbatim>\<open>Object.entries\<close> yields them; a lookup \<^verbatim>\<open>registry[id]\<close> is \<open>map_of\<close>.
\<close>

record ExtensionInfo =
  info_id :: string
  version :: string
  submodule :: "string option"
  info_path :: "string option"

type_synonym ExtensionsToml = "(string \<times> ExtensionInfo) list"

text \<open>
  \<^verbatim>\<open>Map<string, Set<string>>\<close>, the value \<^verbatim>\<open>getPublishedVersionsByExtensionId()\<close> resolves to.
  It is built from a listing of the blob store and is a parameter here.
\<close>

type_synonym PublishedIndex = "string \<rightharpoonup> string set"

fun unpublishedLoop :: "PublishedIndex \<Rightarrow> ExtensionsToml \<Rightarrow> string list \<Rightarrow> string list" where
  "unpublishedLoop publishedExtensionVersions [] result = result"
| "unpublishedLoop publishedExtensionVersions ((extensionId, extensionInfo) # rest) result =
     (case publishedExtensionVersions extensionId of
        None \<Rightarrow> unpublishedLoop publishedExtensionVersions rest (result @ [extensionId])
      | Some versions \<Rightarrow>
          if version extensionInfo \<notin> versions
          then unpublishedLoop publishedExtensionVersions rest (result @ [extensionId])
          else unpublishedLoop publishedExtensionVersions rest result)"

definition unpublishedExtensionIds :: "PublishedIndex \<Rightarrow> ExtensionsToml \<Rightarrow> string list" where
  "unpublishedExtensionIds publishedExtensionVersions extensionsToml =
     unpublishedLoop publishedExtensionVersions extensionsToml []"

text \<open>
  The reference registry \<^verbatim>\<open>mainExtensionsToml\<close> is parsed from the output of
  \<^verbatim>\<open>git show origin/main:extensions.toml\<close> and is a parameter here.
  \<^verbatim>\<open>mainExtension?.version\<close> is \<^verbatim>\<open>undefined\<close> when the id is missing from it.
\<close>

fun changedLoop :: "ExtensionsToml \<Rightarrow> ExtensionsToml \<Rightarrow> string list \<Rightarrow> string list" where
  "changedLoop mainExtensionsToml [] result = result"
| "changedLoop mainExtensionsToml ((extensionId, extensionInfo) # rest) result =
     (let mainExtension = map_of mainExtensionsToml extensionId in
      if map_option version mainExtension = Some (version extensionInfo)
      then changedLoop mainExtensionsToml rest result
      else changedLoop mainExtensionsToml rest (result @ [extensionId]))"

definition changedExtensionIds :: "ExtensionsToml \<Rightarrow> ExtensionsToml \<Rightarrow> string list" where
  "changedExtensionIds mainExtensionsToml extensionsToml =
     changedLoop mainExtensionsToml extensionsToml []"

text \<open>The published \<open>(id, version)\<close> pairs of an index, in the words of the specification.\<close>

definition publishedPairs :: "PublishedIndex \<Rightarrow> (string \<times> string) set" where
  "publishedPairs idx = {(i, v). \<exists>vs. idx i = Some vs \<and> v \<in> vs}"

definition mkInfo :: "string \<Rightarrow> string \<Rightarrow> ExtensionInfo" where
  "mkInfo i v = \<lparr>info_id = i, version = v, submodule = None, info_path = None\<rparr>"

section \<open>validateManifest\<close>

text \<open>\<^verbatim>\<open>interface ValidationResult { isValid: boolean; errors: string[] }\<close>\<close>

record ValidationResult =
  isValid :: bool
  errors :: "string list"

text \<open>The class \<^verbatim>\<open>[a-zA-Z0-9\-\.]\<close> of the pre-release part.\<close>

definition preReleaseClass :: "char \<Rightarrow> bool" where
  "preReleaseClass c =
     (inRange CHR ''a'' CHR ''z'' c \<or> inRange CHR ''A'' CHR ''Z'' c
      \<or> inRange CHR ''0'' CHR ''9'' c \<or> c = CHR ''-'' \<or> c = CHR ''.'')"

text \<open>\<^verbatim>\<open>const versionRegex = /^\d+\.\d+\.\d+(-[a-zA-Z0-9\-\.]+)?$/;\<close>\<close>

definition versionRegex :: rx where
  "versionRegex =
     Seq (Plus (Cls isDigit))
       (Seq (Lit ''.'')
          (Seq (Plus (Cls isDigit))
             (Seq (Lit ''.'')
                (Seq (Plus (Cls isDigit))
                   (Opt (Seq (Lit ''-'') (Plus (Cls preReleaseClass))))))))"

definition requiredFields :: "string list" where
  "requiredFields = [''name'', ''version'', ''description'']"

definition missingFieldMsg :: "string \<Rightarrow> string" where
  "missingFieldMsg field = ''Missing or invalid required field: '' @ field"

definition nameFormatMsg :: string where
  "nameFormatMsg = ''Manifest name must contain only lowercase letters, numbers, and hyphens''"

definition versionFormatMsg :: string where
  "versionFormatMsg =
     ''Version must follow semantic versioning format (e.g., 1.0.0 or 1.0.0-beta.1)''"

text \<open>The elements of an array value, for \<^verbatim>\<open>manifest.keywords.every(...)\<close>.\<close>

fun elements :: "JsValue \<Rightarrow> JsValue list" where
  "elements (JArr xs) = xs"
| "elements v = []"

definition validateManifest :: "JsValue \<Rightarrow> error + ValidationResult" where
  "validateManifest manifest =
     (if \<not> truthy manifest \<or> typeof manifest \<noteq> ''object'' then
        Inr \<lparr>isValid = False, errors = [''Manifest must be an object'']\<rparr>
      else
        let errors = [];
            errors = foldl (\<lambda>errors field.
                        if \<not> truthy (getProp manifest field)
                           \<or> typeof (getProp manifest field) \<noteq> ''string''
                        then errors @ [missingFieldMsg field] else errors)
                      errors requiredFields
        in
        case (if truthy (getProp manifest ''name'')
              then regexTest EXTENSION_ID_PATTERN (getProp manifest ''name'') else Inr True) of
          Inl e \<Rightarrow> Inl e
        | Inr nameMatches \<Rightarrow>
            let errors = (if truthy (getProp manifest ''name'') \<and> \<not> nameMatches
                          then errors @ [nameFormatMsg] else errors)
            in
            case (if truthy (getProp manifest ''version'')
                  then regexTest versionRegex (getProp manifest ''version'') else Inr True) of
              Inl e \<Rightarrow> Inl e
            | Inr versionMatches \<Rightarrow>
                let errors = (if truthy (getProp manifest ''version'') then
                                (if \<not> versionMatches
                                 then errors @ [versionFormatMsg] else errors)
                              else errors);
                    errors = (if truthy (getProp manifest ''author'')
                                 \<and> typeof (getProp manifest ''author'') \<noteq> ''string''
                              then errors @ [''Author must be a string''] else errors);
                    errors = (if truthy (getProp manifest ''license'')
                                 \<and> typeof (getProp manifest ''license'') \<noteq> ''string''
                              then errors @ [''License must be a string''] else errors);
                    errors = (if truthy (getProp manifest ''repository'')
                                 \<and> typeof (getProp manifest ''repository'') \<noteq> ''string''
                              then errors @ [''Repository must be a string''] else errors);
                    errors = (if truthy (getProp manifest ''keywords'')
                                 \<and> (\<not> isArray (getProp manifest ''keywords'')
                                      \<or> \<not> list_all (\<lambda>k. typeof k = ''string'')
                                             (elements (getProp manifest ''keywords'')))
                              then errors @ [''Keywords must be an array of strings'']
                              else errors)
                in Inr \<lparr>isValid = (errors = []), errors = errors\<rparr>)"

text \<open>
  A value that \<open>validateManifest\<close> can hand to a pattern: falsy, so that the test is
  skipped, or convertible to a string.
\<close>

definition testable :: "JsValue \<Rightarrow> bool" where
  "testable v = (\<not> truthy v \<or> jsToString v \<noteq> None)"

text \<open>
  The version format in the words of the specification,
  \<^verbatim>\<open>^\d+\.\d+\.\d+(-[A-Za-z0-9.-]+)?$\<close>: three non-empty runs of digits separated by
  dots, then nothing or a hyphen and a non-empty run of letters, digits, dots and hyphens.
\<close>

definition specPreRelease :: "char \<Rightarrow> bool" where
  "specPreRelease c =
     (inRange CHR ''A'' CHR ''Z'' c \<or> inRange CHR ''a'' CHR ''z'' c
      \<or> inRange CHR ''0'' CHR ''9'' c \<or> c = CHR ''.'' \<or> c = CHR ''-'')"

definition digits :: "string \<Rightarrow> bool" where
  "digits s = (s \<noteq> [] \<and> list_all isDigit s)"

definition specVersion :: "string \<Rightarrow> bool" where
  "specVersion s =
     (\<exists>a b c t. s = a @ ''.'' @ b @ ''.'' @ c @ t \<and> digits a \<and> digits b \<and> digits c
        \<and> (t = [] \<or> (\<exists>p. t = ''-'' @ p \<and> p \<noteq> [] \<and> list_all specPreRelease p)))"

section \<open>validateGitmodules\<close>

text \<open>
  \<^verbatim>\<open>interface Submodule { name: string; lineNumber: number; path: string | null; url: string | null }\<close>;
  \<open>None\<close> is \<^verbatim>\<open>null\<close>.
\<close>

record Submodule =
  name :: string
  lineNumber :: nat
  path :: "string option"
  url :: "string option"

text \<open>\<^verbatim>\<open>interface GitmodulesValidationResult extends ValidationResult { submodules: Submodule[] }\<close>\<close>

record GitmodulesValidationResult = ValidationResult +
  submodules :: "Submodule list"

text \<open>
  White space and line terminators, the characters that \<^verbatim>\<open>String.prototype.trim\<close> strips
  and \<^verbatim>\<open>\s\<close> matches: tab, line feed, vertical tab, form feed, carriage return, space
  and no-break space.
\<close>

definition isWhiteSpace :: "char \<Rightarrow> bool" where
  "isWhiteSpace c =
     (c = CHR 0x09 \<or> c = CHR 0x0A \<or> c = CHR 0x0B \<or> c = CHR 0x0C \<or> c = CHR 0x0D
      \<or> c = CHR 0x20 \<or> c = CHR 0xA0)"

text \<open>The class \<^verbatim>\<open>.\<close>: every character but the line terminators.\<close>

definition dotClass :: "char \<Rightarrow> bool" where
  "dotClass c = (c \<noteq> CHR 0x0A \<and> c \<noteq> CHR 0x0D)"

definition jsTrim :: "string \<Rightarrow> string" where
  "jsTrim s = rev (dropWhile isWhiteSpace (rev (dropWhile isWhiteSpace s)))"

text \<open>\<^verbatim>\<open>s.split(sep)\<close> for a separator of one character.\<close>

fun splitOn :: "char \<Rightarrow> string \<Rightarrow> string list" where
  "splitOn sep [] = [[]]"
| "splitOn sep (c # cs) =
     (if c = sep then [] # splitOn sep cs
      else (case splitOn sep cs of
              [] \<Rightarrow> [[c]]
            | l # ls \<Rightarrow> (c # l) # ls))"

definition startsWith :: "string \<Rightarrow> string \<Rightarrow> bool" where
  "startsWith s p = (take (length p) s = p)"

text \<open>\<^verbatim>\<open>/^\[submodule "(.+)"\]$/\<close>\<close>

definition submoduleRegex :: rx where
  \<open>submoduleRegex = Seq (Lit ''[submodule "'') (Seq (Plus (Cls dotClass)) (Lit ''"]''))\<close>

text \<open>\<^verbatim>\<open>/^path\s*=\s*(.+)$/\<close> and \<^verbatim>\<open>/^url\s*=\s*(.+)$/\<close>\<close>

definition propertyRegex :: "string \<Rightarrow> rx" where
  "propertyRegex key =
     Seq (Lit key)
       (Seq (Star (Cls isWhiteSpace))
          (Seq (Lit ''='')
             (Seq (Star (Cls isWhiteSpace)) (Plus (Cls dotClass)))))"

text \<open>\<^verbatim>\<open>/^(https?:\/\/|git@|ssh:\/\/)/\<close>, anchored at the start only.\<close>

definition urlSchemeRegex :: rx where
  "urlSchemeRegex =
     Alt (Seq (Lit ''http'') (Seq (Opt (Lit ''s'')) (Lit ''://'')))
       (Alt (Lit ''git@'') (Lit ''ssh://''))"

text \<open>
  \<^verbatim>\<open>line.match(/^\[submodule "(.+)"\]$/)\<close>: \<open>None\<close> is \<^verbatim>\<open>null\<close>, \<open>Some n\<close> a match whose
  group 1 is \<open>n\<close>. The anchors fix the group: it is the line without its first twelve
  and last two characters.
\<close>

definition submoduleMatch :: "string \<Rightarrow> string option" where
  "submoduleMatch line =
     (if rmatch submoduleRegex line then Some (take (length line - 14) (drop 12 line))
      else None)"

text \<open>
  Group 1 of a property match. Both \<^verbatim>\<open>\s*\<close> are greedy: the second takes all the white
  space after the \<^verbatim>\<open>=\<close>, unless nothing else follows, when it leaves the last character
  to the group.
\<close>

definition propertyMatch :: "string \<Rightarrow> string \<Rightarrow> string option" where
  "propertyMatch key line =
     (if rmatch (propertyRegex key) line then
        (let afterEq = drop 1 (dropWhile isWhiteSpace (drop (length key) line));
             rest = dropWhile isWhiteSpace afterEq
         in Some (if rest \<noteq> [] then rest else [last afterEq]))
      else None)"

definition pathMatch :: "string \<Rightarrow> string option" where
  "pathMatch line = propertyMatch ''path'' line"

definition urlMatch :: "string \<Rightarrow> string option" where
  "urlMatch line = propertyMatch ''url'' line"

text \<open>
  The variables of the scanning loop: \<^verbatim>\<open>currentSubmodule\<close>, the list \<^verbatim>\<open>submodules\<close>
  (here \<open>scanned\<close>) and the list \<^verbatim>\<open>errors\<close> (here \<open>lineErrors\<close>), renamed apart from
  the fields of the result.
\<close>

record ScanState =
  currentSubmodule :: "Submodule option"
  scanned :: "Submodule list"
  lineErrors :: "string list"

definition invalidHeaderMsg :: "nat \<Rightarrow> string \<Rightarrow> string" where
  "invalidHeaderMsg n line = ''Invalid section header at line '' @ showNat n @ '': '' @ line"

definition invalidPropertyMsg :: "nat \<Rightarrow> string \<Rightarrow> string" where
  "invalidPropertyMsg n line = ''Invalid property at line '' @ showNat n @ '': '' @ line"

definition missingPathMsg :: "string \<Rightarrow> string" where
  \<open>missingPathMsg n = ''Submodule "'' @ n @ ''" missing path property''\<close>

definition missingUrlMsg :: "string \<Rightarrow> string" where
  \<open>missingUrlMsg n = ''Submodule "'' @ n @ ''" missing url property''\<close>

definition invalidUrlMsg :: "string \<Rightarrow> string \<Rightarrow> string" where
  \<open>invalidUrlMsg n u = ''Submodule "'' @ n @ ''" has invalid URL format: '' @ u\<close>

text \<open>The body of the loop \<^verbatim>\<open>for (let i = 0; i < lines.length; i++)\<close>, for line \<open>i\<close>.\<close>

definition scanLine :: "nat \<Rightarrow> string \<Rightarrow> ScanState \<Rightarrow> ScanState" where
  "scanLine i line st =
     (case submoduleMatch line of
        Some n \<Rightarrow>
          st\<lparr>scanned := (case currentSubmodule st of
                            Some cur \<Rightarrow> scanned st @ [cur]
                          | None \<Rightarrow> scanned st),
             currentSubmodule := Some \<lparr>name = n, lineNumber = i + 1, path = None, url = None\<rparr>\<rparr>
      | None \<Rightarrow>
          if pathMatch line \<noteq> None \<and> currentSubmodule st \<noteq> None then
            st\<lparr>currentSubmodule :=
                 Some ((the (currentSubmodule st))\<lparr>path := Some (jsTrim (the (pathMatch line)))\<rparr>)\<rparr>
          else if urlMatch line \<noteq> None \<and> currentSubmodule st \<noteq> None then
            st\<lparr>currentSubmodule :=
                 Some ((the (currentSubmodule st))\<lparr>url := Some (jsTrim (the (urlMatch line)))\<rparr>)\<rparr>
          else if startsWith line ''['' then
            st\<lparr>lineErrors := lineErrors st @ [invalidHeaderMsg (i + 1) line]\<rparr>
          else if \<not> startsWith line ''#'' \<and> pathMatch line = None \<and> urlMatch line = None
                  \<and> currentSubmodule st \<noteq> None then
            st\<lparr>lineErrors := lineErrors st @ [invalidPropertyMsg (i + 1) line]\<rparr>
          else st)"

fun scanLines :: "nat \<Rightarrow> string list \<Rightarrow> ScanState \<Rightarrow> ScanState" where
  "scanLines i [] st = st"
| "scanLines i (line # rest) st = scanLines (Suc i) rest (scanLine i line st)"

text \<open>Truthiness of a \<^verbatim>\<open>string | null\<close>: neither \<^verbatim>\<open>null\<close> nor empty.\<close>

fun present :: "string option \<Rightarrow> bool" where
  "present None = False"
| "present (Some s) = (s \<noteq> [])"

text \<open>The errors one iteration of \<^verbatim>\<open>for (const submodule of submodules)\<close> pushes.\<close>

definition checkSubmodule :: "Submodule \<Rightarrow> string list" where
  "checkSubmodule sm =
     (if \<not> present (path sm) then [missingPathMsg (name sm)] else [])
     @ (if \<not> present (url sm) then [missingUrlMsg (name sm)] else [])
     @ (if present (url sm) \<and> \<not> rmatch_prefix urlSchemeRegex (the (url sm))
        then [invalidUrlMsg (name sm) (the (url sm))] else [])"

text \<open>\<^verbatim>\<open>gitmodules.split("\n").map((line) => line.trim()).filter((line) => line.length > 0)\<close>\<close>

definition gitLines :: "string \<Rightarrow> string list" where
  "gitLines gitmodules =
     filter (\<lambda>line. length line > 0) (map jsTrim (splitOn CHR 0x0A gitmodules))"

definition validateGitmodules :: "JsValue \<Rightarrow> GitmodulesValidationResult" where
  "validateGitmodules gitmodules =
     (case gitmodules of
        JStr text \<Rightarrow>
          let st = scanLines 0 (gitLines text)
                     \<lparr>currentSubmodule = None, scanned = [], lineErrors = []\<rparr>;
              submodules = (case currentSubmodule st of
                              Some cur \<Rightarrow> scanned st @ [cur]
                            | None \<Rightarrow> scanned st);
              errors = lineErrors st @ concat (map checkSubmodule submodules)
          in \<lparr>isValid = (errors = []), errors = errors, submodules = submodules\<rparr>
      | _ \<Rightarrow> \<lparr>isValid = False, errors = [''Gitmodules must be a string''], submodules = []\<rparr>)"

text \<open>
  The url schemes the specification allows (its section 3), and the ones the scheme
  pattern lets through.
\<close>

definition specSchemes :: "string \<Rightarrow> bool" where
  "specSchemes u = (prefix ''https://'' u \<or> prefix ''git@'' u \<or> prefix ''ssh://'' u)"

definition acceptedSchemes :: "string \<Rightarrow> bool" where
  "acceptedSchemes u =
     (prefix ''http://'' u \<or> prefix ''https://'' u \<or> prefix ''git@'' u \<or> prefix ''ssh://'' u)"

text \<open>The submodule list and the state the scan of a text ends with.\<close>

definition finalSubmodules :: "ScanState \<Rightarrow> Submodule list" where
  "finalSubmodules st =
     (case currentSubmodule st of Some cur \<Rightarrow> scanned st @ [cur] | None \<Rightarrow> scanned st)"

definition scanText :: "string \<Rightarrow> ScanState" where
  "scanText text =
     scanLines 0 (gitLines text) \<lparr>currentSubmodule = None, scanned = [], lineErrors = []\<rparr>"

text \<open>A section name the header pattern can capture: non-empty, free of line terminators.\<close>

definition okName :: "string \<Rightarrow> bool" where
  "okName n = (n \<noteq> [] \<and> list_all dotClass n)"

text \<open>
  What the scan guarantees of every submodule it stores: a name the header pattern
  captured, and values that are trimmed and free of line terminators.
\<close>

definition scanned_ok :: "Submodule \<Rightarrow> bool" where
  "scanned_ok sm =
     (okName (name sm)
      \<and> (case path sm of None \<Rightarrow> True | Some p \<Rightarrow> list_all dotClass p \<and> jsTrim p = p)
      \<and> (case url sm of None \<Rightarrow> True | Some u \<Rightarrow> list_all dotClass u \<and> jsTrim u = u))"

text \<open>The line that is a submodule header with the name \<open>n\<close>.\<close>

definition headerLine :: "string \<Rightarrow> string" where
  \<open>headerLine n = ''[submodule "'' @ n @ ''"]''\<close>

text \<open>The invariant of the scanning loop.\<close>

definition scan_ok :: "ScanState \<Rightarrow> bool" where
  "scan_ok st =
     ((\<forall>sm \<in> set (scanned st). scanned_ok sm)
      \<and> (case currentSubmodule st of None \<Rightarrow> True | Some cur \<Rightarrow> scanned_ok cur))"

text \<open>
  What the scan makes of the trimmed non-blank lines, told section by section, to compare
  with the loop: the body of a section is the run of lines after its header up to the
  next submodule header; an assignment in the body overwrites the earlier ones, so a
  property ends as the trimmed value of its last assignment in the body, or stays
  \<^verbatim>\<open>null\<close>; and every header line opens a section with the captured name and the
  number of the header line.
\<close>

definition sectionBody :: "string list \<Rightarrow> string list" where
  "sectionBody rest = takeWhile (\<lambda>l. submoduleMatch l = None) rest"

fun lastValue :: "(string \<Rightarrow> string option) \<Rightarrow> string option \<Rightarrow> string list \<Rightarrow> string option" where
  "lastValue m acc [] = acc"
| "lastValue m acc (l # ls) =
     lastValue m (case m l of Some v \<Rightarrow> Some (jsTrim v) | None \<Rightarrow> acc) ls"

definition closeSection :: "Submodule \<Rightarrow> string list \<Rightarrow> Submodule" where
  "closeSection cur body =
     cur\<lparr>path := lastValue pathMatch (path cur) body, url := lastValue urlMatch (url cur) body\<rparr>"

fun sections :: "nat \<Rightarrow> string list \<Rightarrow> Submodule list" where
  "sections i [] = []"
| "sections i (l # ls) =
     (case submoduleMatch l of
        Some n \<Rightarrow>
          closeSection \<lparr>name = n, lineNumber = i + 1, path = None, url = None\<rparr> (sectionBody ls)
          # sections (Suc i) ls
      | None \<Rightarrow> sections (Suc i) ls)"




section \<open>Facts about regular expression matching\<close>

lemma rmatch_Seq_iff:
  "rmatch (Seq a b) s \<longleftrightarrow> (\<exists>u v. s = u @ v \<and> rmatch a u \<and> rmatch b v)"
proof
  assume "rmatch (Seq a b) s"
  then have "\<exists>i \<in> set [0..<Suc (length s)]. rmatch a (take i s) \<and> rmatch b (drop i s)"
    unfolding rmatch.simps list_ex_iff .
  then obtain i where "rmatch a (take i s)" "rmatch b (drop i s)"
    by blast
  moreover have "s = take i s @ drop i s" by simp
  ultimately show "\<exists>u v. s = u @ v \<and> rmatch a u \<and> rmatch b v" by blast
next
  assume "\<exists>u v. s = u @ v \<and> rmatch a u \<and> rmatch b v"
  then obtain u v where uv: "s = u @ v" "rmatch a u" "rmatch b v" by blast
  have "length u \<in> set [0..<Suc (length s)]" using uv(1) by simp
  moreover have "rmatch a (take (length u) s) \<and> rmatch b (drop (length u) s)"
    using uv by simp
  ultimately show "rmatch (Seq a b) s"
    unfolding rmatch.simps list_ex_iff by blast
qed

lemma rmatch_Cls_iff: "rmatch (Cls p) s \<longleftrightarrow> (\<exists>c. s = [c] \<and> p c)"
  by (auto simp: rmatch.simps(1) split: list.splits)

lemma rmatch_Cls_simps [simp]:
  "rmatch (Cls p) [] = False"
  "rmatch (Cls p) [c] = p c"
  "rmatch (Cls p) (c # d # s) = False"
  by (simp_all add: rmatch.simps(1))

lemma rmatch_Cls_Seq_Cons [simp]:
  "rmatch (Seq (Cls p) r) (c # s) \<longleftrightarrow> p c \<and> rmatch r s"
proof
  assume "rmatch (Seq (Cls p) r) (c # s)"
  then obtain u v where uv: "c # s = u @ v" "rmatch (Cls p) u" "rmatch r v"
    unfolding rmatch_Seq_iff by blast
  from uv(2) obtain d where d: "u = [d]" "p d" unfolding rmatch_Cls_iff by blast
  with uv show "p c \<and> rmatch r s" by simp
next
  assume "p c \<and> rmatch r s"
  then have "c # s = [c] @ s \<and> rmatch (Cls p) [c] \<and> rmatch r s" by simp
  then show "rmatch (Seq (Cls p) r) (c # s)" unfolding rmatch_Seq_iff by blast
qed

lemma rmatch_Cls_Seq_Nil [simp]: "\<not> rmatch (Seq (Cls p) r) []"
  by (auto simp: rmatch_Seq_iff rmatch_Cls_iff)

lemma star_match_Nil [simp]: "star_match f []"
  by (simp add: star_match.simps)

lemma star_match_iff:
  "star_match f s \<longleftrightarrow>
     s = [] \<or> (\<exists>u v. u \<noteq> [] \<and> s = u @ v \<and> f u \<and> star_match f v)"
proof (cases "s = []")
  case True
  then show ?thesis by simp
next
  case False
  show ?thesis
  proof
    assume "star_match f s"
    then obtain i where i: "i < length s" "f (take (Suc i) s)" "star_match f (drop (Suc i) s)"
      using False by (subst (asm) star_match.simps) (auto simp: list_ex_iff)
    have "take (Suc i) s \<noteq> []" using False by auto
    moreover have "s = take (Suc i) s @ drop (Suc i) s" by simp
    ultimately show "s = [] \<or> (\<exists>u v. u \<noteq> [] \<and> s = u @ v \<and> f u \<and> star_match f v)"
      using i by blast
  next
    assume "s = [] \<or> (\<exists>u v. u \<noteq> [] \<and> s = u @ v \<and> f u \<and> star_match f v)"
    then obtain u v where uv: "u \<noteq> []" "s = u @ v" "f u" "star_match f v"
      using False by blast
    obtain i where i: "length u = Suc i" using uv(1) by (cases u) auto
    have "i \<in> set [0..<length s]" using uv(2) i by simp
    moreover have "f (take (Suc i) s) \<and> star_match f (drop (Suc i) s)"
      using uv i by simp
    ultimately show "star_match f s"
      using False by (subst star_match.simps) (auto simp: list_ex_iff)
  qed
qed

lemma star_match_Cls: "star_match (rmatch (Cls p)) s \<longleftrightarrow> list_all p s"
proof (induction s)
  case Nil
  then show ?case by simp
next
  case (Cons c s)
  show ?case
  proof
    assume "star_match (rmatch (Cls p)) (c # s)"
    then have "\<exists>u v. u \<noteq> [] \<and> c # s = u @ v \<and> rmatch (Cls p) u \<and> star_match (rmatch (Cls p)) v"
      using star_match_iff [of "rmatch (Cls p)" "c # s"] by simp
    then obtain u v where uv: "u \<noteq> []" "c # s = u @ v" "rmatch (Cls p) u"
        "star_match (rmatch (Cls p)) v"
      by blast
    from uv(3) obtain d where d: "u = [d]" "p d" unfolding rmatch_Cls_iff by blast
    from uv(2) d(1) have "c = d" "s = v" by simp_all
    with uv(4) d(2) Cons.IH show "list_all p (c # s)" by simp
  next
    assume "list_all p (c # s)"
    then have "[c] \<noteq> [] \<and> c # s = [c] @ s \<and> rmatch (Cls p) [c]
        \<and> star_match (rmatch (Cls p)) s"
      using Cons.IH by simp
    then have "\<exists>u v. u \<noteq> [] \<and> c # s = u @ v \<and> rmatch (Cls p) u \<and> star_match (rmatch (Cls p)) v"
      by blast
    then show "star_match (rmatch (Cls p)) (c # s)"
      using star_match_iff [of "rmatch (Cls p)" "c # s"] by simp
  qed
qed


lemma rmatch_Star_Cls [simp]: "rmatch (Star (Cls p)) s \<longleftrightarrow> list_all p s"
  by (simp add: star_match_Cls rmatch.simps(5))

lemma rmatch_Plus_Cls: "rmatch (Plus (Cls p)) s \<longleftrightarrow> s \<noteq> [] \<and> list_all p s"
  by (cases s) (simp_all add: Plus_def)

lemma rmatch_Lit [simp]: "rmatch (Lit w) s \<longleftrightarrow> s = w"
  by (induction w arbitrary: s) (auto simp: Lit.simps rmatch_Seq_iff rmatch_Cls_iff)

lemma EXTENSION_ID_PATTERN_iff:
  "rmatch EXTENSION_ID_PATTERN s \<longleftrightarrow> s \<noteq> [] \<and> list_all idClass s"
  by (simp add: EXTENSION_ID_PATTERN_def rmatch_Plus_Cls)

lemma showNat_digit: "n < 10 \<Longrightarrow> showNat n = [digitChar n]"
  by (simp add: showNat.simps)

section \<open>Facts about validateExtensionsToml\<close>

lemma checkTopLevelIds_ok:
  "checkTopLevelIds ks = Inr () \<longleftrightarrow> list_all (rmatch EXTENSION_ID_PATTERN) ks"
  by (induction ks) auto

lemma checkTopLevelIds_cases:
  "checkTopLevelIds ks = Inr () \<or> (\<exists>k \<in> set ks. checkTopLevelIds ks = Inl (topLevelIdError k))"
  by (induction ks) auto

lemma uppercase_or_underscore_rejected:
  assumes "c \<in> set k" "inRange CHR ''A'' CHR ''Z'' c \<or> c = CHR ''_''"
  shows "\<not> rmatch EXTENSION_ID_PATTERN k"
proof -
  have "\<not> idClass c"
    using assms(2) by (auto simp: idClass_def inRange_def less_eq_char_def)
  then show ?thesis
    using assms(1) by (auto simp: EXTENSION_ID_PATTERN_iff list_all_iff)
qed

text \<open>A registry with a single key of the wrong shape fails with the error naming that key.\<close>

lemma validateExtensionsToml_bad_id:
  assumes "\<not> rmatch EXTENSION_ID_PATTERN k"
  shows "validateExtensionsToml (JObj [(k, v)]) = Inl (topLevelIdError k)"
  using assms by (simp add: validateExtensionsToml_def)

lemma checkExtension_None:
  "checkExtension exts k = None \<longleftrightarrow> entryPasses exts k"
proof -
  have obj: "truthy v \<and> typeof v = ''object'' \<longleftrightarrow> (\<exists>kvs. v = JObj kvs) \<or> (\<exists>xs. v = JArr xs)" for v
    by (cases v) auto
  have str: "truthy v \<and> typeof v = ''string'' \<longleftrightarrow> (\<exists>s. v = JStr s \<and> s \<noteq> [])" for v
    by (cases v) auto
  show ?thesis
    unfolding checkExtension_def entryPasses_def Let_def
    using obj [of "getProp exts k"] str [of "getProp (getProp exts k) ''version''"]
      str [of "getProp (getProp exts k) ''source''"]
    by (auto split: if_splits)
qed

lemma checkExtensions_ok:
  "checkExtensions exts ks = Inr () \<longleftrightarrow> list_all (entryPasses exts) ks"
  by (induction ks) (auto simp: checkExtension_None [symmetric] split: option.splits)

lemma hasSection_iff:
  "hasSection x \<longleftrightarrow>
     truthy (getProp x ''extensions'') \<and> typeof (getProp x ''extensions'') = ''object''"
  unfolding hasSection_def by (cases "getProp x ''extensions''") auto

text \<open>
  C1 (evaluation at the failing input). The registry \<^verbatim>\<open>{"my-cool-extension": {}}\<close> of
  the repository's own test has only keys of the right shape, and
  \<open>validateExtensionsToml\<close> throws \<^verbatim>\<open>Missing or invalid extensions section\<close> on it.
\<close>

theorem validateExtensionsToml_valid_ids_throws:
  "list_all (rmatch EXTENSION_ID_PATTERN) (ownKeys (JObj [(''my-cool-extension'', JObj [])]))
   \<and> validateExtensionsToml (JObj [(''my-cool-extension'', JObj [])])
       = Inl (Error ''Missing or invalid extensions section'')"
  by (simp add: validateExtensionsToml_def EXTENSION_ID_PATTERN_iff idClass_def inRange_def
      missingSectionError_def)

theorem validateExtensionsToml_valid_ids_throws_witness:
  "validateExtensionsToml (JObj [(''my-cool-extension'', JObj [])]) \<noteq> Inr ()"
  using validateExtensionsToml_valid_ids_throws by simp

text \<open>
  C10 (as stated, refuted). The object \<^verbatim>\<open>{"Bad_Key": {}}\<close> has no \<^verbatim>\<open>extensions\<close> key,
  and the error thrown is the one of the top-level id check, not
  \<^verbatim>\<open>Missing or invalid extensions section\<close>.
\<close>

theorem missing_section_counterexample:
  "getProp (JObj [(''Bad_Key'', JObj [])]) ''extensions'' = JUndefined
   \<and> validateExtensionsToml (JObj [(''Bad_Key'', JObj [])]) = Inl (topLevelIdError ''Bad_Key'')
   \<and> validateExtensionsToml (JObj [(''Bad_Key'', JObj [])])
       \<noteq> Inl (Error ''Missing or invalid extensions section'')"
  by (simp add: validateExtensionsToml_def EXTENSION_ID_PATTERN_iff idClass_def inRange_def
      topLevelIdError_def)

lemma validateExtensionsToml_Inr_iff:
  "validateExtensionsToml (JObj kvs) = Inr ()
     \<longleftrightarrow> list_all (rmatch EXTENSION_ID_PATTERN) (map fst kvs)
         \<and> hasSection (JObj kvs)
         \<and> list_all (entryPasses (getProp (JObj kvs) ''extensions''))
              (ownKeys (getProp (JObj kvs) ''extensions''))"
proof -
  let ?x = "JObj kvs"
  have top: "checkTopLevelIds (map fst kvs) = Inr () \<longleftrightarrow>
      list_all (rmatch EXTENSION_ID_PATTERN) (map fst kvs)"
    by (rule checkTopLevelIds_ok)
  have sec: "hasSection ?x \<longleftrightarrow>
      truthy (getProp ?x ''extensions'') \<and> typeof (getProp ?x ''extensions'') = ''object''"
    by (rule hasSection_iff)
  have ne: "checkTopLevelIds (map fst kvs) \<noteq> Inr () \<Longrightarrow>
      (case checkTopLevelIds (map fst kvs) of Inl e \<Rightarrow> Inl e | Inr u \<Rightarrow> r) \<noteq> Inr ()" for r
    by (cases "checkTopLevelIds (map fst kvs)") auto
  show ?thesis
  proof (cases "list_all (rmatch EXTENSION_ID_PATTERN) (map fst kvs)")
    case True
    then have "checkTopLevelIds (map fst kvs) = Inr ()" using top by simp
    then show ?thesis
      using True sec
      by (auto simp: validateExtensionsToml_def Let_def missingSectionError_def
          checkExtensions_ok)
  next
    case False
    then have "checkTopLevelIds (map fst kvs) \<noteq> Inr ()" using top by simp
    then show ?thesis
      using False ne by (simp add: validateExtensionsToml_def)
  qed
qed

lemma validateExtensionsToml_no_section:
  assumes "list_all (rmatch EXTENSION_ID_PATTERN) (map fst kvs)" "\<not> hasSection (JObj kvs)"
  shows "validateExtensionsToml (JObj kvs) = Inl (Error ''Missing or invalid extensions section'')"
proof -
  have "checkTopLevelIds (map fst kvs) = Inr ()"
    using assms(1) by (simp add: checkTopLevelIds_ok)
  then show ?thesis
    using assms(2) unfolding hasSection_iff
    by (auto simp: validateExtensionsToml_def Let_def missingSectionError_def)
qed

text \<open>
  C10 (amended). For every object whose top-level keys all match the id pattern and
  that has no object-valued \<^verbatim>\<open>extensions\<close> property, \<open>validateExtensionsToml\<close> throws
  \<^verbatim>\<open>Missing or invalid extensions section\<close>; and it returns normally exactly when all
  top-level keys match, the section is present and every entry of the section passes.
\<close>

theorem validateExtensionsToml_requires_section:
  "(list_all (rmatch EXTENSION_ID_PATTERN) (map fst kvs) \<and> \<not> hasSection (JObj kvs)
      \<longrightarrow> validateExtensionsToml (JObj kvs) = Inl (Error ''Missing or invalid extensions section''))
   \<and> (validateExtensionsToml (JObj kvs) = Inr ()
      \<longleftrightarrow> list_all (rmatch EXTENSION_ID_PATTERN) (map fst kvs)
          \<and> hasSection (JObj kvs)
          \<and> list_all (entryPasses (getProp (JObj kvs) ''extensions''))
               (ownKeys (getProp (JObj kvs) ''extensions'')))"
  using validateExtensionsToml_no_section [of kvs] validateExtensionsToml_Inr_iff [of kvs]
  by blast

theorem validateExtensionsToml_requires_section_witness:
  "validateExtensionsToml (JObj [(''base16'', JObj [])])
     = Inl (Error ''Missing or invalid extensions section'')
   \<and> validateExtensionsToml
       (JObj [(''extensions'',
               JObj [(''base16'', JObj [(''version'', JStr ''1.0.0''),
                                        (''source'', JStr ''x'')])])]) = Inr ()"
proof -
  have ids: "rmatch EXTENSION_ID_PATTERN ''base16''" "rmatch EXTENSION_ID_PATTERN ''extensions''"
    by (simp_all add: EXTENSION_ID_PATTERN_iff idClass_def inRange_def)
  have a: "validateExtensionsToml (JObj [(''base16'', JObj [])])
     = Inl (Error ''Missing or invalid extensions section'')"
    using validateExtensionsToml_requires_section [of "[(''base16'', JObj [])]"] ids
    by (simp add: hasSection_def)
  have b: "validateExtensionsToml
       (JObj [(''extensions'',
               JObj [(''base16'', JObj [(''version'', JStr ''1.0.0''),
                                        (''source'', JStr ''x'')])])]) = Inr ()"
    using validateExtensionsToml_requires_section
      [of "[(''extensions'',
               JObj [(''base16'', JObj [(''version'', JStr ''1.0.0''),
                                        (''source'', JStr ''x'')])])]"] ids
    by (simp add: hasSection_def entryPasses_def)
  show ?thesis using a b by simp
qed

section \<open>Facts about the selection engine\<close>

lemma unpublishedLoop_eq:
  "unpublishedLoop idx reg acc =
     acc @ map fst (filter (\<lambda>(i, e). (i, version e) \<notin> publishedPairs idx) reg)"
  by (induction reg arbitrary: acc) (auto simp: publishedPairs_def split: option.splits)

lemma changedLoop_eq:
  "changedLoop ref reg acc =
     acc @ map fst (filter (\<lambda>(i, e). case map_of ref i of
                                         None \<Rightarrow> True
                                       | Some m \<Rightarrow> version m \<noteq> version e) reg)"
  by (induction reg arbitrary: acc) (auto simp: Let_def split: option.splits)

text \<open>
  C2. \<open>unpublishedExtensionIds\<close> returns, in registry order, exactly the ids whose
  \<open>(id, version)\<close> pair is not published, ids missing from the index included; for
  registry \<^verbatim>\<open>{a: v1.0.0, b: v2.0.0}\<close> and index \<^verbatim>\<open>{a: {v1.0.0}}\<close> that is \<^verbatim>\<open>[b]\<close>, and a
  published id with a new version is selected.
\<close>

theorem unpublishedExtensionIds_spec:
  "unpublishedExtensionIds idx reg =
     map fst (filter (\<lambda>(i, e). (i, version e) \<notin> publishedPairs idx) reg)
   \<and> unpublishedExtensionIds [''a'' \<mapsto> {''v1.0.0''}]
        [(''a'', mkInfo ''a'' ''v1.0.0''), (''b'', mkInfo ''b'' ''v2.0.0'')] = [''b'']
   \<and> unpublishedExtensionIds [''a'' \<mapsto> {''v1.0.0''}]
        [(''a'', mkInfo ''a'' ''v1.1.0'')] = [''a'']"
  by (simp add: unpublishedExtensionIds_def unpublishedLoop_eq)
     (simp add: publishedPairs_def mkInfo_def)

theorem unpublishedExtensionIds_spec_witness:
  "unpublishedExtensionIds Map.empty
     [(''a'', mkInfo ''a'' ''v1.0.0''), (''b'', mkInfo ''b'' ''v2.0.0'')] = [''a'', ''b'']"
  using unpublishedExtensionIds_spec
    [of Map.empty "[(''a'', mkInfo ''a'' ''v1.0.0''), (''b'', mkInfo ''b'' ''v2.0.0'')]"]
  by (simp add: publishedPairs_def)

text \<open>
  C3. \<open>changedExtensionIds\<close> returns, in registry order, exactly the ids of the current
  registry whose version differs from the reference's or that the reference lacks; an id
  that only the reference has is never returned; for current \<^verbatim>\<open>{a: v1.1.0, b: v2.0.0}\<close>
  and reference \<^verbatim>\<open>{a: v1.0.0, b: v2.0.0}\<close> the result is \<^verbatim>\<open>[a]\<close>.
\<close>

theorem changedExtensionIds_spec:
  "changedExtensionIds ref reg =
     map fst (filter (\<lambda>(i, e). case map_of ref i of
                                  None \<Rightarrow> True
                                | Some m \<Rightarrow> version m \<noteq> version e) reg)
   \<and> (\<forall>i. i \<notin> fst ` set reg \<longrightarrow> i \<notin> set (changedExtensionIds ref reg))
   \<and> changedExtensionIds
        [(''a'', mkInfo ''a'' ''v1.0.0''), (''b'', mkInfo ''b'' ''v2.0.0'')]
        [(''a'', mkInfo ''a'' ''v1.1.0''), (''b'', mkInfo ''b'' ''v2.0.0'')] = [''a'']"
proof -
  have eq: "changedExtensionIds ref reg =
     map fst (filter (\<lambda>(i, e). case map_of ref i of
                                  None \<Rightarrow> True
                                | Some m \<Rightarrow> version m \<noteq> version e) reg)" for ref reg
    by (simp add: changedExtensionIds_def changedLoop_eq)
  have sub: "\<forall>i. i \<notin> fst ` set reg \<longrightarrow> i \<notin> set (changedExtensionIds ref reg)"
    unfolding eq by auto
  have ex: "changedExtensionIds
        [(''a'', mkInfo ''a'' ''v1.0.0''), (''b'', mkInfo ''b'' ''v2.0.0'')]
        [(''a'', mkInfo ''a'' ''v1.1.0''), (''b'', mkInfo ''b'' ''v2.0.0'')] = [''a'']"
    unfolding eq by (simp add: mkInfo_def)
  show ?thesis using eq sub ex by blast
qed

theorem changedExtensionIds_spec_witness:
  "''gone'' \<notin> fst ` set [(''a'', mkInfo ''a'' ''v1.1.0'')]
   \<and> ''gone'' \<notin> set (changedExtensionIds
        [(''a'', mkInfo ''a'' ''v1.0.0''), (''gone'', mkInfo ''gone'' ''v3.0.0'')]
        [(''a'', mkInfo ''a'' ''v1.1.0'')])
   \<and> changedExtensionIds
        [(''a'', mkInfo ''a'' ''v1.0.0''), (''gone'', mkInfo ''gone'' ''v3.0.0'')]
        [(''a'', mkInfo ''a'' ''v1.1.0'')] = [''a'']"
proof -
  have h: "''gone'' \<notin> fst ` set [(''a'', mkInfo ''a'' ''v1.1.0'')]" by simp
  have "''gone'' \<notin> set (changedExtensionIds
        [(''a'', mkInfo ''a'' ''v1.0.0''), (''gone'', mkInfo ''gone'' ''v3.0.0'')]
        [(''a'', mkInfo ''a'' ''v1.1.0'')])"
    using changedExtensionIds_spec
      [of "[(''a'', mkInfo ''a'' ''v1.0.0''), (''gone'', mkInfo ''gone'' ''v3.0.0'')]"
          "[(''a'', mkInfo ''a'' ''v1.1.0'')]"] h
    by blast
  moreover have "changedExtensionIds
        [(''a'', mkInfo ''a'' ''v1.0.0''), (''gone'', mkInfo ''gone'' ''v3.0.0'')]
        [(''a'', mkInfo ''a'' ''v1.1.0'')] = [''a'']"
    by (simp add: changedExtensionIds_def mkInfo_def)
  ultimately show ?thesis using h by blast
qed

section \<open>More facts about regular expression matching\<close>

lemma rmatch_Lit_Seq: "rmatch (Seq (Lit w) r) s \<longleftrightarrow> (\<exists>v. s = w @ v \<and> rmatch r v)"
  by (auto simp: rmatch_Seq_iff)

lemma rmatch_Lit_Seq_exec:
  "rmatch (Seq (Lit w) r) s \<longleftrightarrow> take (length w) s = w \<and> rmatch r (drop (length w) s)"
proof
  assume "rmatch (Seq (Lit w) r) s"
  then obtain v where "s = w @ v" "rmatch r v" unfolding rmatch_Lit_Seq by blast
  then show "take (length w) s = w \<and> rmatch r (drop (length w) s)" by simp
next
  assume a: "take (length w) s = w \<and> rmatch r (drop (length w) s)"
  have "s = take (length w) s @ drop (length w) s" by simp
  then have "s = w @ drop (length w) s" using a by simp
  then show "rmatch (Seq (Lit w) r) s" unfolding rmatch_Lit_Seq using a by blast
qed

lemma rmatch_Plus_Seq:
  "rmatch (Seq (Plus (Cls p)) r) s \<longleftrightarrow>
     (\<exists>u v. s = u @ v \<and> u \<noteq> [] \<and> list_all p u \<and> rmatch r v)"
  by (auto simp: rmatch_Seq_iff [of "Plus (Cls p)"] rmatch_Plus_Cls)

lemma preRelease_tail_iff:
  "rmatch (Opt (Seq (Lit ''-'') (Plus (Cls preReleaseClass)))) t \<longleftrightarrow>
     (t = [] \<or> (\<exists>p. t = ''-'' @ p \<and> p \<noteq> [] \<and> list_all specPreRelease p))"
proof -
  have cls: "preReleaseClass = specPreRelease"
    by (auto simp: fun_eq_iff preReleaseClass_def specPreRelease_def)
  show ?thesis
    unfolding Opt_def rmatch.simps(2,4) rmatch_Lit_Seq rmatch_Plus_Cls cls by blast
qed

lemma versionRegex_iff: "rmatch versionRegex s \<longleftrightarrow> specVersion s"
proof
  assume "rmatch versionRegex s"
  then obtain a v1 where a: "s = a @ v1" "a \<noteq> []" "list_all isDigit a"
    and r1: "rmatch (Seq (Lit ''.'') (Seq (Plus (Cls isDigit)) (Seq (Lit ''.'')
               (Seq (Plus (Cls isDigit))
                  (Opt (Seq (Lit ''-'') (Plus (Cls preReleaseClass)))))))) v1"
    unfolding versionRegex_def rmatch_Plus_Seq by blast
  from r1 obtain v2 where v2: "v1 = ''.'' @ v2"
    and r2: "rmatch (Seq (Plus (Cls isDigit)) (Seq (Lit ''.'')
               (Seq (Plus (Cls isDigit))
                  (Opt (Seq (Lit ''-'') (Plus (Cls preReleaseClass))))))) v2"
    unfolding rmatch_Lit_Seq by blast
  from r2 obtain b v3 where b: "v2 = b @ v3" "b \<noteq> []" "list_all isDigit b"
    and r3: "rmatch (Seq (Lit ''.'') (Seq (Plus (Cls isDigit))
                  (Opt (Seq (Lit ''-'') (Plus (Cls preReleaseClass)))))) v3"
    unfolding rmatch_Plus_Seq by blast
  from r3 obtain v4 where v4: "v3 = ''.'' @ v4"
    and r4: "rmatch (Seq (Plus (Cls isDigit))
                  (Opt (Seq (Lit ''-'') (Plus (Cls preReleaseClass))))) v4"
    unfolding rmatch_Lit_Seq by blast
  from r4 obtain c t where c: "v4 = c @ t" "c \<noteq> []" "list_all isDigit c"
    and r5: "rmatch (Opt (Seq (Lit ''-'') (Plus (Cls preReleaseClass)))) t"
    unfolding rmatch_Plus_Seq by blast
  have "s = a @ ''.'' @ b @ ''.'' @ c @ t"
    using a(1) v2 b(1) v4 c(1) by simp
  moreover have "t = [] \<or> (\<exists>p. t = ''-'' @ p \<and> p \<noteq> [] \<and> list_all specPreRelease p)"
    using r5 unfolding preRelease_tail_iff .
  ultimately show "specVersion s"
    unfolding specVersion_def digits_def using a(2,3) b(2,3) c(2,3) by blast
next
  assume "specVersion s"
  then obtain a b c t where s: "s = a @ ''.'' @ b @ ''.'' @ c @ t"
    and d: "a \<noteq> []" "list_all isDigit a" "b \<noteq> []" "list_all isDigit b"
      "c \<noteq> []" "list_all isDigit c"
    and t: "t = [] \<or> (\<exists>p. t = ''-'' @ p \<and> p \<noteq> [] \<and> list_all specPreRelease p)"
    unfolding specVersion_def digits_def by blast
  have r5: "rmatch (Opt (Seq (Lit ''-'') (Plus (Cls preReleaseClass)))) t"
    using t unfolding preRelease_tail_iff .
  have r4: "rmatch (Seq (Plus (Cls isDigit))
                  (Opt (Seq (Lit ''-'') (Plus (Cls preReleaseClass))))) (c @ t)"
    unfolding rmatch_Plus_Seq using d(5,6) r5 by blast
  have r3: "rmatch (Seq (Lit ''.'') (Seq (Plus (Cls isDigit))
                  (Opt (Seq (Lit ''-'') (Plus (Cls preReleaseClass)))))) (''.'' @ c @ t)"
    unfolding rmatch_Lit_Seq using r4 by blast
  have r2: "rmatch (Seq (Plus (Cls isDigit)) (Seq (Lit ''.'')
               (Seq (Plus (Cls isDigit))
                  (Opt (Seq (Lit ''-'') (Plus (Cls preReleaseClass)))))))
              (b @ ''.'' @ c @ t)"
    unfolding rmatch_Plus_Seq using d(3,4) r3 by blast
  have r1: "rmatch (Seq (Lit ''.'') (Seq (Plus (Cls isDigit)) (Seq (Lit ''.'')
               (Seq (Plus (Cls isDigit))
                  (Opt (Seq (Lit ''-'') (Plus (Cls preReleaseClass))))))))
              (''.'' @ b @ ''.'' @ c @ t)"
    unfolding rmatch_Lit_Seq using r2 by blast
  show "rmatch versionRegex s"
    unfolding versionRegex_def s rmatch_Plus_Seq using d(1,2) r1 by blast
qed


lemma rmatch_Seq_assoc: "rmatch (Seq (Seq a b) c) s \<longleftrightarrow> rmatch (Seq a (Seq b c)) s"
proof
  assume "rmatch (Seq (Seq a b) c) s"
  then obtain u v w where "s = (u @ v) @ w" "rmatch a u" "rmatch b v" "rmatch c w"
    unfolding rmatch_Seq_iff by blast
  then have "s = u @ (v @ w) \<and> rmatch a u \<and> rmatch (Seq b c) (v @ w)"
    unfolding rmatch_Seq_iff by auto
  then show "rmatch (Seq a (Seq b c)) s"
    unfolding rmatch_Seq_iff [of a] by blast
next
  assume "rmatch (Seq a (Seq b c)) s"
  then obtain u v w where "s = u @ (v @ w)" "rmatch a u" "rmatch b v" "rmatch c w"
    unfolding rmatch_Seq_iff by blast
  then have "s = (u @ v) @ w \<and> rmatch (Seq a b) (u @ v) \<and> rmatch c w"
    unfolding rmatch_Seq_iff by auto
  then show "rmatch (Seq (Seq a b) c) s"
    unfolding rmatch_Seq_iff [of "Seq a b"] by blast
qed

lemma rmatch_Seq_Eps: "rmatch (Seq Eps r) s \<longleftrightarrow> rmatch r s"
  by (simp add: rmatch_Seq_iff)

lemma rmatch_Seq_Alt:
  "rmatch (Seq (Alt a b) c) s \<longleftrightarrow> rmatch (Seq a c) s \<or> rmatch (Seq b c) s"
  unfolding rmatch_Seq_iff rmatch.simps(4) by blast

lemma rmatch_Seq_Star_Cls_Nil: "rmatch (Seq (Star (Cls p)) r) [] \<longleftrightarrow> rmatch r []"
  by (simp add: rmatch_Seq_iff)

lemma rmatch_Seq_Star_Cls_Cons:
  "rmatch (Seq (Star (Cls p)) r) (c # s) \<longleftrightarrow>
     rmatch r (c # s) \<or> (p c \<and> rmatch (Seq (Star (Cls p)) r) s)"
proof
  assume "rmatch (Seq (Star (Cls p)) r) (c # s)"
  then obtain u v where uv: "c # s = u @ v" "list_all p u" "rmatch r v"
    unfolding rmatch_Seq_iff rmatch_Star_Cls by blast
  show "rmatch r (c # s) \<or> (p c \<and> rmatch (Seq (Star (Cls p)) r) s)"
  proof (cases u)
    case Nil
    then show ?thesis using uv by simp
  next
    case (Cons d u')
    then have "p c" "s = u' @ v" "list_all p u'" using uv by simp_all
    then have "p c \<and> rmatch (Seq (Star (Cls p)) r) s"
      unfolding rmatch_Seq_iff rmatch_Star_Cls using uv(3) by blast
    then show ?thesis by simp
  qed
next
  assume "rmatch r (c # s) \<or> (p c \<and> rmatch (Seq (Star (Cls p)) r) s)"
  then show "rmatch (Seq (Star (Cls p)) r) (c # s)"
  proof
    assume "rmatch r (c # s)"
    then have "c # s = [] @ (c # s) \<and> list_all p [] \<and> rmatch r (c # s)" by simp
    then show ?thesis unfolding rmatch_Seq_iff rmatch_Star_Cls by blast
  next
    assume a: "p c \<and> rmatch (Seq (Star (Cls p)) r) s"
    then obtain u v where uv: "s = u @ v" "list_all p u" "rmatch r v"
      unfolding rmatch_Seq_iff rmatch_Star_Cls by blast
    then have "c # s = (c # u) @ v \<and> list_all p (c # u) \<and> rmatch r v" using a by simp
    then show ?thesis unfolding rmatch_Seq_iff rmatch_Star_Cls by blast
  qed
qed

text \<open>Rewrite rules that decide a match on a literal string.\<close>

lemmas rx_eval =
  Plus_def Opt_def rmatch_Lit_Seq_exec rmatch_Seq_assoc rmatch_Seq_Eps rmatch_Seq_Alt
  rmatch_Seq_Star_Cls_Nil rmatch_Seq_Star_Cls_Cons inRange_def isDigit_def

lemma versionRegex_examples:
  "rmatch versionRegex ''1.0.0''"
  "\<not> rmatch versionRegex ''1.0''"
  "rmatch versionRegex ''10.20.3-beta.1''"
  "\<not> rmatch versionRegex ''10.20.3-''"
  by (simp_all add: versionRegex_def rx_eval preReleaseClass_def)

section \<open>Facts about validateManifest\<close>

lemma push_if: "(if c then xs @ [m] else xs) = xs @ (if c then [m] else [])"
  by simp

lemma push_if2:
  "(if a then xs @ (if b then [m] else []) else xs) = xs @ (if a \<and> b then [m] else [])"
  by simp

lemma guarded_test:
  assumes "testable v"
  shows "(if truthy v then regexTest r v else Inr True)
           = Inr (\<not> truthy v \<or> rmatch r (the (jsToString v)))"
  using assms by (auto simp: testable_def regexTest_def)

lemma validateManifest_throws:
  assumes "\<not> testable (getProp (JObj kvs) ''name'')"
  shows "validateManifest (JObj kvs) = Inl cannotConvert"
  using assms
  by (simp add: validateManifest_def testable_def regexTest_def Let_def del: getProp.simps)

lemma validateManifest_result:
  assumes "testable (getProp (JObj kvs) ''name'')" "testable (getProp (JObj kvs) ''version'')"
  shows "\<exists>r. validateManifest (JObj kvs) = Inr r \<and> (isValid r \<longleftrightarrow> errors r = [])
    \<and> errors r =
     concat (map (\<lambda>field. if \<not> truthy (getProp (JObj kvs) field)
                              \<or> typeof (getProp (JObj kvs) field) \<noteq> ''string''
                           then [missingFieldMsg field] else []) requiredFields)
     @ (if truthy (getProp (JObj kvs) ''name'')
           \<and> \<not> rmatch EXTENSION_ID_PATTERN (the (jsToString (getProp (JObj kvs) ''name'')))
        then [nameFormatMsg] else [])
     @ (if truthy (getProp (JObj kvs) ''version'')
           \<and> \<not> rmatch versionRegex (the (jsToString (getProp (JObj kvs) ''version'')))
        then [versionFormatMsg] else [])
     @ (if truthy (getProp (JObj kvs) ''author'')
           \<and> typeof (getProp (JObj kvs) ''author'') \<noteq> ''string''
        then [''Author must be a string''] else [])
     @ (if truthy (getProp (JObj kvs) ''license'')
           \<and> typeof (getProp (JObj kvs) ''license'') \<noteq> ''string''
        then [''License must be a string''] else [])
     @ (if truthy (getProp (JObj kvs) ''repository'')
           \<and> typeof (getProp (JObj kvs) ''repository'') \<noteq> ''string''
        then [''Repository must be a string''] else [])
     @ (if truthy (getProp (JObj kvs) ''keywords'')
           \<and> (\<not> isArray (getProp (JObj kvs) ''keywords'')
                \<or> \<not> list_all (\<lambda>k. typeof k = ''string'')
                       (elements (getProp (JObj kvs) ''keywords'')))
        then [''Keywords must be an array of strings''] else [])"
  unfolding validateManifest_def Let_def requiredFields_def foldl.simps
    guarded_test [OF assms(1)] guarded_test [OF assms(2)] sum.case push_if push_if2
  by (simp del: getProp.simps split del: if_split)

lemma specVersion_Nil: "\<not> specVersion []"
  by (simp add: specVersion_def)

lemma version_errors:
  assumes "getProp (JObj kvs) ''version'' = JStr v" "testable (getProp (JObj kvs) ''name'')"
  shows "\<exists>r. validateManifest (JObj kvs) = Inr r
           \<and> (versionFormatMsg \<in> set (errors r) \<longleftrightarrow> v \<noteq> [] \<and> \<not> specVersion v)
           \<and> (missingFieldMsg ''version'' \<in> set (errors r) \<longleftrightarrow> v = [])"
proof -
  have t: "testable (getProp (JObj kvs) ''version'')"
    using assms(1) by (simp add: testable_def)
  from validateManifest_result [OF assms(2) t]
  obtain r where r: "validateManifest (JObj kvs) = Inr r"
    and e: "errors r =
     concat (map (\<lambda>field. if \<not> truthy (getProp (JObj kvs) field)
                              \<or> typeof (getProp (JObj kvs) field) \<noteq> ''string''
                           then [missingFieldMsg field] else []) requiredFields)
     @ (if truthy (getProp (JObj kvs) ''name'')
           \<and> \<not> rmatch EXTENSION_ID_PATTERN (the (jsToString (getProp (JObj kvs) ''name'')))
        then [nameFormatMsg] else [])
     @ (if truthy (getProp (JObj kvs) ''version'')
           \<and> \<not> rmatch versionRegex (the (jsToString (getProp (JObj kvs) ''version'')))
        then [versionFormatMsg] else [])
     @ (if truthy (getProp (JObj kvs) ''author'')
           \<and> typeof (getProp (JObj kvs) ''author'') \<noteq> ''string''
        then [''Author must be a string''] else [])
     @ (if truthy (getProp (JObj kvs) ''license'')
           \<and> typeof (getProp (JObj kvs) ''license'') \<noteq> ''string''
        then [''License must be a string''] else [])
     @ (if truthy (getProp (JObj kvs) ''repository'')
           \<and> typeof (getProp (JObj kvs) ''repository'') \<noteq> ''string''
        then [''Repository must be a string''] else [])
     @ (if truthy (getProp (JObj kvs) ''keywords'')
           \<and> (\<not> isArray (getProp (JObj kvs) ''keywords'')
                \<or> \<not> list_all (\<lambda>k. typeof k = ''string'')
                       (elements (getProp (JObj kvs) ''keywords'')))
        then [''Keywords must be an array of strings''] else [])"
    by blast
  have "versionFormatMsg \<in> set (errors r) \<longleftrightarrow> v \<noteq> [] \<and> \<not> specVersion v"
    unfolding e requiredFields_def using assms(1)
    by (simp add: missingFieldMsg_def versionFormatMsg_def nameFormatMsg_def
        versionRegex_iff del: getProp.simps)
  moreover have "missingFieldMsg ''version'' \<in> set (errors r) \<longleftrightarrow> v = []"
    unfolding e requiredFields_def using assms(1)
    by (simp add: missingFieldMsg_def versionFormatMsg_def nameFormatMsg_def
        versionRegex_iff del: getProp.simps)
  ultimately show ?thesis using r by blast
qed

lemma simple_manifest:
  "validateManifest
     (JObj [(''name'', JStr ''x''), (''version'', JStr w), (''description'', JStr ''d'')])
   = Inr \<lparr>isValid = specVersion w,
          errors = (if w = [] then [missingFieldMsg ''version'']
                    else if specVersion w then [] else [versionFormatMsg])\<rparr>"
proof -
  have idx: "rmatch EXTENSION_ID_PATTERN ''x''"
    by (simp add: EXTENSION_ID_PATTERN_iff idClass_def inRange_def)
  show ?thesis
    unfolding validateManifest_def Let_def requiredFields_def
    using idx specVersion_Nil
    by (simp add: regexTest_def versionRegex_iff)
qed

text \<open>
  C8. A manifest whose \<^verbatim>\<open>version\<close> is the string \<open>v\<close> (and whose name does not make
  the name test throw) is given a result, and the result has no version error (neither
  the missing-field one nor the format one) exactly when \<open>v\<close> has the format
  \<^verbatim>\<open>^\d+\.\d+\.\d+(-[A-Za-z0-9.-]+)?$\<close>; an otherwise valid manifest is valid exactly
  then; and \<^verbatim>\<open>{name: "x", version: "1.0", description: "d"}\<close> returns
  \<^verbatim>\<open>isValid: false\<close> with the version-format error.
\<close>

theorem validateManifest_version_format:
  "(getProp (JObj kvs) ''version'' = JStr v \<and> testable (getProp (JObj kvs) ''name'') \<longrightarrow>
      (\<exists>r. validateManifest (JObj kvs) = Inr r
          \<and> (versionFormatMsg \<notin> set (errors r) \<and> missingFieldMsg ''version'' \<notin> set (errors r)
               \<longleftrightarrow> specVersion v)))
   \<and> (\<exists>r. validateManifest
             (JObj [(''name'', JStr ''x''), (''version'', JStr v), (''description'', JStr ''d'')])
           = Inr r
          \<and> (isValid r \<longleftrightarrow> specVersion v))
   \<and> validateManifest
        (JObj [(''name'', JStr ''x''), (''version'', JStr ''1.0''), (''description'', JStr ''d'')])
      = Inr \<lparr>isValid = False, errors = [versionFormatMsg]\<rparr>"
proof -
  have a: "getProp (JObj kvs) ''version'' = JStr v \<and> testable (getProp (JObj kvs) ''name'') \<longrightarrow>
      (\<exists>r. validateManifest (JObj kvs) = Inr r
          \<and> (versionFormatMsg \<notin> set (errors r) \<and> missingFieldMsg ''version'' \<notin> set (errors r)
               \<longleftrightarrow> specVersion v))"
  proof
    assume h: "getProp (JObj kvs) ''version'' = JStr v \<and> testable (getProp (JObj kvs) ''name'')"
    then obtain r where r: "validateManifest (JObj kvs) = Inr r"
      "versionFormatMsg \<in> set (errors r) \<longleftrightarrow> v \<noteq> [] \<and> \<not> specVersion v"
      "missingFieldMsg ''version'' \<in> set (errors r) \<longleftrightarrow> v = []"
      using version_errors [of kvs v] by blast
    have "versionFormatMsg \<notin> set (errors r) \<and> missingFieldMsg ''version'' \<notin> set (errors r)
               \<longleftrightarrow> specVersion v"
      using r(2,3) specVersion_Nil by auto
    then show "\<exists>r. validateManifest (JObj kvs) = Inr r
          \<and> (versionFormatMsg \<notin> set (errors r) \<and> missingFieldMsg ''version'' \<notin> set (errors r)
               \<longleftrightarrow> specVersion v)"
      using r(1) by blast
  qed
  have b: "\<exists>r. validateManifest
             (JObj [(''name'', JStr ''x''), (''version'', JStr v), (''description'', JStr ''d'')])
           = Inr r
          \<and> (isValid r \<longleftrightarrow> specVersion v)"
    unfolding simple_manifest by simp
  have n: "\<not> specVersion ''1.0''"
    unfolding versionRegex_iff [symmetric]
    by (simp add: versionRegex_def rx_eval preReleaseClass_def)
  have c: "validateManifest
        (JObj [(''name'', JStr ''x''), (''version'', JStr ''1.0''), (''description'', JStr ''d'')])
      = Inr \<lparr>isValid = False, errors = [versionFormatMsg]\<rparr>"
    unfolding simple_manifest using n by simp
  show ?thesis using a b c by blast
qed

theorem validateManifest_version_format_witness:
  "getProp (JObj [(''version'', JStr ''1.2.3-rc.1'')]) ''version'' = JStr ''1.2.3-rc.1''
   \<and> testable (getProp (JObj [(''version'', JStr ''1.2.3-rc.1'')]) ''name'')
   \<and> specVersion ''1.2.3-rc.1''
   \<and> (\<exists>r. validateManifest (JObj [(''version'', JStr ''1.2.3-rc.1'')]) = Inr r
         \<and> versionFormatMsg \<notin> set (errors r)
         \<and> missingFieldMsg ''version'' \<notin> set (errors r))"
proof -
  have h: "getProp (JObj [(''version'', JStr ''1.2.3-rc.1'')]) ''version'' = JStr ''1.2.3-rc.1''"
    by simp
  have t: "testable (getProp (JObj [(''version'', JStr ''1.2.3-rc.1'')]) ''name'')"
    by (simp add: testable_def)
  have v: "specVersion ''1.2.3-rc.1''"
    unfolding versionRegex_iff [symmetric]
    by (simp add: versionRegex_def rx_eval preReleaseClass_def)
  show ?thesis
    using validateManifest_version_format [of "[(''version'', JStr ''1.2.3-rc.1'')]" "''1.2.3-rc.1''"]
      h t v
    by blast
qed

text \<open>
  C9 (evaluation at the failing input). A manifest whose \<^verbatim>\<open>authors\<close> is the number 42
  is reported valid, with no error: the check reads the property \<^verbatim>\<open>author\<close>, which the
  \<^verbatim>\<open>Manifest\<close> interface does not have, and never \<^verbatim>\<open>authors\<close>. The same value under
  \<^verbatim>\<open>author\<close> is reported.
\<close>

theorem validateManifest_authors_unchecked:
  "validateManifest
     (JObj [(''name'', JStr ''x''), (''version'', JStr ''1.0.0''), (''description'', JStr ''d''),
            (''authors'', JNum ''42'')])
     = Inr \<lparr>isValid = True, errors = []\<rparr>
   \<and> validateManifest
     (JObj [(''name'', JStr ''x''), (''version'', JStr ''1.0.0''), (''description'', JStr ''d''),
            (''author'', JNum ''42'')])
     = Inr \<lparr>isValid = False, errors = [''Author must be a string'']\<rparr>"
proof -
  have idx: "rmatch EXTENSION_ID_PATTERN ''x''"
    by (simp add: EXTENSION_ID_PATTERN_iff idClass_def inRange_def)
  have v: "rmatch versionRegex ''1.0.0''"
    by (simp add: versionRegex_def rx_eval preReleaseClass_def)
  show ?thesis
    unfolding validateManifest_def Let_def requiredFields_def
    using idx v by (simp add: regexTest_def)
qed

theorem validateManifest_authors_unchecked_witness:
  "\<exists>r. validateManifest
         (JObj [(''name'', JStr ''x''), (''version'', JStr ''1.0.0''),
                (''description'', JStr ''d''), (''authors'', JNum ''42'')]) = Inr r
       \<and> isValid r \<and> errors r = []"
  using validateManifest_authors_unchecked by simp

section \<open>Facts about number rendering and arrays\<close>

lemma digitChar_isDigit: "d < 10 \<Longrightarrow> isDigit (digitChar d)"
proof -
  assume "d < 10"
  then have "d \<in> {0, 1, 2, 3, 4, 5, 6, 7, 8, 9}" by auto
  then show ?thesis
    by (auto simp: digitChar_def isDigit_def inRange_def)
qed

lemma showNat_digits: "list_all isDigit (showNat n)"
proof (induction n rule: showNat.induct)
  case (1 n)
  show ?case
  proof (cases "n < 10")
    case True
    then show ?thesis by (simp add: showNat.simps [of n] digitChar_isDigit)
  next
    case False
    then show ?thesis
      using "1.IH" by (simp add: showNat.simps [of n] digitChar_isDigit)
  qed
qed






text \<open>An array never validates as a registry: it has no \<^verbatim>\<open>extensions\<close> property.\<close>

lemma getProp_JArr_extensions: "getProp (JArr xs) ''extensions'' = JUndefined"
proof -
  have "showNat i \<noteq> ''extensions''" for i
  proof
    assume "showNat i = ''extensions''"
    then have "list_all isDigit ''extensions''" using showNat_digits [of i] by simp
    then show False by (simp add: isDigit_def inRange_def)
  qed
  then have "find (\<lambda>i. showNat i = ''extensions'') [0..<length xs] = None"
    by (simp add: find_None_iff)
  then show ?thesis by simp
qed

lemma validateExtensionsToml_JArr: "validateExtensionsToml (JArr xs) \<noteq> Inr ()"
proof -
  have "(case checkTopLevelIds ks of Inl e \<Rightarrow> Inl e | Inr u \<Rightarrow> Inl missingSectionError) \<noteq> Inr ()"
    for ks
    by (cases "checkTopLevelIds ks") auto
  then show ?thesis
    unfolding validateExtensionsToml_def Let_def getProp_JArr_extensions
    by simp
qed

section \<open>Facts about trimming and the line patterns\<close>

subsection \<open>Trimming\<close>

lemma jsTrim_Nil [simp]: "jsTrim [] = []"
  by (simp add: jsTrim_def)

lemma dropWhile_rev_last:
  assumes "s \<noteq> []" "\<not> P (last s)"
  shows "rev (dropWhile P (rev s)) = s"
proof (cases s rule: rev_cases)
  case Nil
  then show ?thesis using assms(1) by simp
next
  case (snoc ys y)
  then show ?thesis using assms(2) by simp
qed

lemma jsTrim_fixed:
  assumes "s \<noteq> []" "\<not> isWhiteSpace (hd s)" "\<not> isWhiteSpace (last s)"
  shows "jsTrim s = s"
proof -
  have "dropWhile isWhiteSpace s = s" using assms(1,2) by (cases s) simp_all
  then show ?thesis unfolding jsTrim_def
    using dropWhile_rev_last [where P = isWhiteSpace, OF assms(1,3)] by simp
qed

lemma dropWhile_fixed_hd:
  assumes "dropWhile P s = s" "s \<noteq> []"
  shows "\<not> P (hd s)"
proof (cases s)
  case Nil
  then show ?thesis using assms(2) by simp
next
  case (Cons x xs)
  show ?thesis
  proof
    assume "P (hd s)"
    then have "dropWhile P s = dropWhile P xs" using Cons by simp
    then have "length s \<le> length xs"
      using assms(1) length_dropWhile_le [of P xs] by simp
    then show False using Cons by simp
  qed
qed

lemma jsTrim_ends:
  assumes "jsTrim s = s" "s \<noteq> []"
  shows "\<not> isWhiteSpace (hd s)" and "\<not> isWhiteSpace (last s)"
proof -
  let ?d = "dropWhile isWhiteSpace s"
  have "length (dropWhile isWhiteSpace (rev ?d)) \<le> length (rev ?d)"
    by (rule length_dropWhile_le)
  then have "length (jsTrim s) \<le> length ?d" unfolding jsTrim_def by simp
  then have "length s \<le> length ?d" using assms(1) by simp
  moreover have "length (takeWhile isWhiteSpace s) + length ?d = length s"
    using takeWhile_dropWhile_id [of isWhiteSpace s]
    by (metis length_append)
  ultimately have "length (takeWhile isWhiteSpace s) = 0" by linarith
  then have "takeWhile isWhiteSpace s = []" by (simp only: length_0_conv)
  then have d: "?d = s"
    using takeWhile_dropWhile_id [of isWhiteSpace s] by simp
  then show "\<not> isWhiteSpace (hd s)"
    using assms(2) by (rule dropWhile_fixed_hd)
  have "rev (dropWhile isWhiteSpace (rev s)) = s"
    using assms(1) d unfolding jsTrim_def by simp
  then have "rev (rev (dropWhile isWhiteSpace (rev s))) = rev s" by simp
  then have "dropWhile isWhiteSpace (rev s) = rev s" by simp
  moreover have "rev s \<noteq> []" using assms(2) by simp
  ultimately have "\<not> isWhiteSpace (hd (rev s))" by (rule dropWhile_fixed_hd)
  then show "\<not> isWhiteSpace (last s)"
    using assms(2) by (simp add: hd_rev)
qed

lemma jsTrim_idem: "jsTrim (jsTrim s) = jsTrim s"
proof (cases "jsTrim s = []")
  case True
  then show ?thesis by simp
next
  case False
  let ?d = "dropWhile isWhiteSpace s"
  let ?r = "dropWhile isWhiteSpace (rev ?d)"
  have t: "jsTrim s = rev ?r" by (simp add: jsTrim_def)
  have rne: "?r \<noteq> []" using False t by simp
  then have "\<not> isWhiteSpace (hd ?r)" by (rule hd_dropWhile)
  then have last: "\<not> isWhiteSpace (last (jsTrim s))"
    using rne unfolding t by (simp add: last_rev)
  have "rev (rev ?d) = rev (takeWhile isWhiteSpace (rev ?d) @ ?r)"
    by (simp only: takeWhile_dropWhile_id)
  then have "?d = rev ?r @ rev (takeWhile isWhiteSpace (rev ?d))"
    by (simp only: rev_rev_ident rev_append)
  then have d: "?d = jsTrim s @ rev (takeWhile isWhiteSpace (rev ?d))"
    by (simp only: t)
  then have "hd ?d = hd (jsTrim s)" using False by (metis hd_append2)
  moreover have "?d \<noteq> []" using d False by (metis append_is_Nil_conv)
  then have "\<not> isWhiteSpace (hd ?d)" by (rule hd_dropWhile)
  ultimately have "\<not> isWhiteSpace (hd (jsTrim s))" by simp
  then show ?thesis using False last by (intro jsTrim_fixed)
qed

lemma jsTrim_dot: "list_all dotClass s \<Longrightarrow> list_all dotClass (jsTrim s)"
proof -
  assume a: "list_all dotClass s"
  have "set (jsTrim s) \<subseteq> set s"
    unfolding jsTrim_def
    using set_dropWhileD [of _ isWhiteSpace "rev (dropWhile isWhiteSpace s)"]
      set_dropWhileD [of _ isWhiteSpace s]
    by auto
  then show ?thesis using a unfolding list_all_iff by blast
qed

subsection \<open>What the line patterns capture\<close>

lemma submoduleRegex_iff:
  \<open>rmatch submoduleRegex l \<longleftrightarrow> (\<exists>n. l = headerLine n \<and> okName n)\<close>
proof
  assume "rmatch submoduleRegex l"
  then obtain v where v: \<open>l = ''[submodule "'' @ v\<close>
    and r: \<open>rmatch (Seq (Plus (Cls dotClass)) (Lit ''"]'')) v\<close>
    unfolding submoduleRegex_def rmatch_Lit_Seq by blast
  from r obtain u w where \<open>v = u @ w\<close> \<open>u \<noteq> []\<close> \<open>list_all dotClass u\<close> \<open>w = ''"]''\<close>
    unfolding rmatch_Plus_Seq rmatch_Lit by blast
  then have "l = headerLine u \<and> okName u"
    using v by (simp add: headerLine_def okName_def)
  then show "\<exists>n. l = headerLine n \<and> okName n" by blast
next
  assume "\<exists>n. l = headerLine n \<and> okName n"
  then obtain n where n: \<open>l = ''[submodule "'' @ n @ ''"]''\<close> \<open>n \<noteq> []\<close> \<open>list_all dotClass n\<close>
    unfolding headerLine_def okName_def by blast
  have \<open>rmatch (Seq (Plus (Cls dotClass)) (Lit ''"]'')) (n @ ''"]'')\<close>
    unfolding rmatch_Plus_Seq rmatch_Lit using n(2,3) by blast
  then show "rmatch submoduleRegex l"
    unfolding submoduleRegex_def rmatch_Lit_Seq n(1) by blast
qed

lemma submoduleMatch_headerLine:
  "submoduleMatch (headerLine n) = (if okName n then Some n else None)"
proof -
  have "rmatch submoduleRegex (headerLine n) \<longleftrightarrow> okName n"
    unfolding submoduleRegex_iff by (auto simp: headerLine_def)
  then show ?thesis
    by (simp add: submoduleMatch_def) (simp add: headerLine_def)
qed

lemma submoduleMatch_Some:
  assumes "submoduleMatch l = Some n"
  shows "l = headerLine n \<and> okName n"
proof -
  have "rmatch submoduleRegex l"
    using assms by (auto simp: submoduleMatch_def split: if_splits)
  then obtain m where m: "l = headerLine m" "okName m"
    unfolding submoduleRegex_iff by blast
  then have "submoduleMatch l = Some m" by (simp add: submoduleMatch_headerLine)
  then show ?thesis using assms m by simp
qed

lemma propertyRegex_iff:
  "rmatch (propertyRegex key) l \<longleftrightarrow>
     (\<exists>w1 w2 c. l = key @ w1 @ ''='' @ w2 @ c \<and> list_all isWhiteSpace w1
        \<and> list_all isWhiteSpace w2 \<and> c \<noteq> [] \<and> list_all dotClass c)"
proof -
  have star: "rmatch (Seq (Star (Cls p)) r) s \<longleftrightarrow> (\<exists>u v. s = u @ v \<and> list_all p u \<and> rmatch r v)"
    for p r s
    unfolding rmatch_Seq_iff rmatch_Star_Cls ..
  show ?thesis
  proof
    assume "rmatch (propertyRegex key) l"
    then obtain v1 where v1: "l = key @ v1"
      and r1: "rmatch (Seq (Star (Cls isWhiteSpace)) (Seq (Lit ''='')
                 (Seq (Star (Cls isWhiteSpace)) (Plus (Cls dotClass))))) v1"
      unfolding propertyRegex_def rmatch_Lit_Seq by blast
    from r1 obtain w1 v2 where w1: "v1 = w1 @ v2" "list_all isWhiteSpace w1"
      and r2: "rmatch (Seq (Lit ''='') (Seq (Star (Cls isWhiteSpace)) (Plus (Cls dotClass)))) v2"
      unfolding star by blast
    from r2 obtain v3 where v3: "v2 = ''='' @ v3"
      and r3: "rmatch (Seq (Star (Cls isWhiteSpace)) (Plus (Cls dotClass))) v3"
      unfolding rmatch_Lit_Seq by blast
    from r3 obtain w2 c where c: "v3 = w2 @ c" "list_all isWhiteSpace w2" "c \<noteq> []"
        "list_all dotClass c"
      unfolding star rmatch_Plus_Cls by blast
    have "l = key @ w1 @ ''='' @ w2 @ c" using v1 w1(1) v3 c(1) by simp
    then show "\<exists>w1 w2 c. l = key @ w1 @ ''='' @ w2 @ c \<and> list_all isWhiteSpace w1
        \<and> list_all isWhiteSpace w2 \<and> c \<noteq> [] \<and> list_all dotClass c"
      using w1(2) c(2-4) by blast
  next
    assume "\<exists>w1 w2 c. l = key @ w1 @ ''='' @ w2 @ c \<and> list_all isWhiteSpace w1
        \<and> list_all isWhiteSpace w2 \<and> c \<noteq> [] \<and> list_all dotClass c"
    then obtain w1 w2 c where d: "l = key @ w1 @ ''='' @ w2 @ c" "list_all isWhiteSpace w1"
        "list_all isWhiteSpace w2" "c \<noteq> []" "list_all dotClass c"
      by blast
    have r3: "rmatch (Seq (Star (Cls isWhiteSpace)) (Plus (Cls dotClass))) (w2 @ c)"
      unfolding star rmatch_Plus_Cls using d(3-5) by blast
    have r2: "rmatch (Seq (Lit ''='') (Seq (Star (Cls isWhiteSpace)) (Plus (Cls dotClass))))
                (''='' @ w2 @ c)"
      unfolding rmatch_Lit_Seq using r3 by blast
    have r1: "rmatch (Seq (Star (Cls isWhiteSpace)) (Seq (Lit ''='')
                 (Seq (Star (Cls isWhiteSpace)) (Plus (Cls dotClass))))) (w1 @ ''='' @ w2 @ c)"
      unfolding star using d(2) r2 by blast
    show "rmatch (propertyRegex key) l"
      unfolding propertyRegex_def rmatch_Lit_Seq d(1) using r1 by blast
  qed
qed

lemma dropWhile_all_append:
  "list_all P xs \<Longrightarrow> dropWhile P (xs @ ys) = dropWhile P ys"
  by (induction xs) simp_all

lemma propertyMatch_decomposed:
  assumes "list_all isWhiteSpace w1" "list_all isWhiteSpace w2" "c \<noteq> []" "list_all dotClass c"
  shows "propertyMatch key (key @ w1 @ ''='' @ w2 @ c) =
     Some (if dropWhile isWhiteSpace c \<noteq> [] then dropWhile isWhiteSpace c else [last c])"
proof -
  let ?l = "key @ w1 @ ''='' @ w2 @ c"
  have m: "rmatch (propertyRegex key) ?l"
    unfolding propertyRegex_iff using assms by blast
  have "dropWhile isWhiteSpace (w1 @ ''='' @ w2 @ c) = ''='' @ w2 @ c"
    using assms(1) by (simp add: dropWhile_all_append isWhiteSpace_def)
  then have a: "drop 1 (dropWhile isWhiteSpace (drop (length key) ?l)) = w2 @ c" by simp
  have r: "dropWhile isWhiteSpace (w2 @ c) = dropWhile isWhiteSpace c"
    using assms(2) by (rule dropWhile_all_append)
  have l: "last (w2 @ c) = last c" using assms(3) by simp
  show ?thesis
    unfolding propertyMatch_def Let_def a r l using m by simp
qed

text \<open>
  The group of a property match is the one the greedy \<^verbatim>\<open>\s*\<close> leaves: the line splits
  around it as the pattern demands, and no other such split has a shorter group.
\<close>

lemma propertyMatch_greedy:
  assumes "propertyMatch key l = Some g"
  shows "\<exists>w1 w2. l = key @ w1 @ ''='' @ w2 @ g \<and> list_all isWhiteSpace w1
           \<and> list_all isWhiteSpace w2 \<and> g \<noteq> [] \<and> list_all dotClass g"
    and "\<And>w1 w2 c. l = key @ w1 @ ''='' @ w2 @ c \<Longrightarrow> list_all isWhiteSpace w1 \<Longrightarrow>
           list_all isWhiteSpace w2 \<Longrightarrow> c \<noteq> [] \<Longrightarrow> list_all dotClass c \<Longrightarrow>
           length g \<le> length c"
proof -
  have "rmatch (propertyRegex key) l"
    using assms by (auto simp: propertyMatch_def split: if_splits)
  then obtain w1 w2 c0 where d: "l = key @ w1 @ ''='' @ w2 @ c0" "list_all isWhiteSpace w1"
      "list_all isWhiteSpace w2" "c0 \<noteq> []" "list_all dotClass c0"
    unfolding propertyRegex_iff by blast
  have g: "g = (if dropWhile isWhiteSpace c0 \<noteq> [] then dropWhile isWhiteSpace c0 else [last c0])"
    using assms propertyMatch_decomposed [OF d(2-5), of key] unfolding d(1) by simp
  show "\<exists>w1 w2. l = key @ w1 @ ''='' @ w2 @ g \<and> list_all isWhiteSpace w1
           \<and> list_all isWhiteSpace w2 \<and> g \<noteq> [] \<and> list_all dotClass g"
  proof (cases "dropWhile isWhiteSpace c0 \<noteq> []")
    case True
    then have gd: "g = dropWhile isWhiteSpace c0" using g by simp
    have c0: "c0 = takeWhile isWhiteSpace c0 @ g" unfolding gd by simp
    have "l = key @ w1 @ ''='' @ (w2 @ takeWhile isWhiteSpace c0) @ g"
      using d(1) c0 by (metis append_assoc)
    moreover have "list_all isWhiteSpace (w2 @ takeWhile isWhiteSpace c0)"
      using d(3) by (auto simp: list_all_iff dest: set_takeWhileD)
    moreover have "list_all dotClass g"
      using d(5) c0 by (metis list_all_append)
    ultimately show ?thesis using d(2) True gd by blast
  next
    case False
    then have gl: "g = [last c0]" using g by simp
    have all: "list_all isWhiteSpace c0"
      using False by (simp add: list_all_iff)
    have c0: "c0 = butlast c0 @ g" unfolding gl using d(4) by simp
    have "l = key @ w1 @ ''='' @ (w2 @ butlast c0) @ g"
      using d(1) c0 by (metis append_assoc)
    moreover have "list_all isWhiteSpace (w2 @ butlast c0)"
      using d(3) all by (auto simp: list_all_iff dest: in_set_butlastD)
    moreover have "list_all dotClass g"
      using d(5) c0 by (metis list_all_append)
    ultimately show ?thesis using d(2) gl by blast
  qed
  fix w1' w2' c
  assume a: "l = key @ w1' @ ''='' @ w2' @ c" "list_all isWhiteSpace w1'"
    "list_all isWhiteSpace w2'" "c \<noteq> []" "list_all dotClass c"
  have "g = (if dropWhile isWhiteSpace c \<noteq> [] then dropWhile isWhiteSpace c else [last c])"
    using assms propertyMatch_decomposed [OF a(2-5), of key] unfolding a(1) by simp
  moreover have "length (dropWhile isWhiteSpace c) \<le> length c" by (rule length_dropWhile_le)
  moreover have "length [last c] \<le> length c" using a(4) by (cases c) simp_all
  ultimately show "length g \<le> length c" by presburger
qed

lemma propertyMatch_Some:
  assumes "propertyMatch key l = Some c"
  shows "list_all dotClass c"
proof -
  have "rmatch (propertyRegex key) l"
    using assms by (auto simp: propertyMatch_def split: if_splits)
  then obtain w1 w2 c0 where d: "l = key @ w1 @ ''='' @ w2 @ c0" "list_all isWhiteSpace w1"
      "list_all isWhiteSpace w2" "c0 \<noteq> []" "list_all dotClass c0"
    unfolding propertyRegex_iff by blast
  have c: "c = (if dropWhile isWhiteSpace c0 \<noteq> [] then dropWhile isWhiteSpace c0 else [last c0])"
    using assms propertyMatch_decomposed [OF d(2-5), of key] unfolding d(1) by simp
  have "set (dropWhile isWhiteSpace c0) \<subseteq> set c0"
    using set_dropWhileD by fastforce
  moreover have "last c0 \<in> set c0" using d(4) by simp
  ultimately have "set c \<subseteq> set c0" unfolding c by auto
  then show ?thesis using d(5) unfolding list_all_iff by blast
qed

subsection \<open>What a scan stores\<close>

lemma scan_ok_final: "scan_ok st \<Longrightarrow> \<forall>sm \<in> set (finalSubmodules st). scanned_ok sm"
  by (auto simp: scan_ok_def finalSubmodules_def split: option.splits)

lemma scanLine_ok:
  assumes "scan_ok st"
  shows "scan_ok (scanLine i l st)"
proof (cases "submoduleMatch l")
  case (Some n)
  then have "okName n" using submoduleMatch_Some by blast
  then show ?thesis
    using assms Some
    by (auto simp: scanLine_def scan_ok_def scanned_ok_def split: option.splits)
next
  case None
  have cap: "propertyMatch key l = Some c \<Longrightarrow>
      list_all dotClass (jsTrim c) \<and> jsTrim (jsTrim c) = jsTrim c" for key c
    using propertyMatch_Some [of key l c] jsTrim_dot [of c] jsTrim_idem [of c] by simp
  show ?thesis
    using assms None cap [of "''path''"] cap [of "''url''"]
    by (auto simp: scanLine_def scan_ok_def scanned_ok_def pathMatch_def urlMatch_def
        split: option.splits)
qed

lemma scanLines_ok: "scan_ok st \<Longrightarrow> scan_ok (scanLines i ls st)"
  by (induction ls arbitrary: i st) (simp_all add: scanLine_ok)

lemma scanText_ok: "scan_ok (scanText text)"
  unfolding scanText_def by (rule scanLines_ok) (simp add: scan_ok_def)

section \<open>Facts about validateGitmodules\<close>

lemma showNat_small:
  "showNat 0 = ''0''" "showNat 1 = ''1''" "showNat 2 = ''2''" "showNat 3 = ''3''"
  "showNat 4 = ''4''" "showNat 5 = ''5''" "showNat (Suc 0) = ''1''"
  by (simp_all add: showNat.simps digitChar_def)

text \<open>Rewrite rules that run the validator on a literal text.\<close>

lemmas git_eval =
  validateGitmodules_def gitLines_def jsTrim_def isWhiteSpace_def dotClass_def
  scanLine_def submoduleMatch_def propertyMatch_def pathMatch_def urlMatch_def
  submoduleRegex_def propertyRegex_def urlSchemeRegex_def rmatch_prefix_def
  checkSubmodule_def startsWith_def Let_def showNat_small
  Plus_def Opt_def rmatch_Lit_Seq_exec rmatch_Seq_assoc rmatch_Seq_Eps rmatch_Seq_Alt
  rmatch_Seq_Star_Cls_Nil rmatch_Seq_Star_Cls_Cons

lemma validateGitmodules_JStr:
  "submodules (validateGitmodules (JStr text)) = finalSubmodules (scanText text)"
  "errors (validateGitmodules (JStr text)) =
     lineErrors (scanText text) @ concat (map checkSubmodule (finalSubmodules (scanText text)))"
  "isValid (validateGitmodules (JStr text)) \<longleftrightarrow> errors (validateGitmodules (JStr text)) = []"
  by (simp_all add: validateGitmodules_def finalSubmodules_def scanText_def Let_def)

lemma validateGitmodules_isValid:
  "isValid (validateGitmodules v) \<longleftrightarrow> errors (validateGitmodules v) = []"
  by (cases v) (simp_all add: validateGitmodules_def Let_def)

lemma checkSubmodule_in_errors:
  assumes "s \<in> set (submodules (validateGitmodules (JStr text)))"
    and "m \<in> set (checkSubmodule s)"
  shows "m \<in> set (errors (validateGitmodules (JStr text)))"
    and "\<not> isValid (validateGitmodules (JStr text))"
proof -
  show m: "m \<in> set (errors (validateGitmodules (JStr text)))"
    using assms unfolding validateGitmodules_JStr by auto
  then have "errors (validateGitmodules (JStr text)) \<noteq> []" by auto
  then show "\<not> isValid (validateGitmodules (JStr text))"
    unfolding validateGitmodules_JStr(3) by simp
qed

lemma checkSubmodule_missing:
  "\<not> present (path s) \<Longrightarrow> missingPathMsg (name s) \<in> set (checkSubmodule s)"
  "\<not> present (url s) \<Longrightarrow> missingUrlMsg (name s) \<in> set (checkSubmodule s)"
  by (simp_all add: checkSubmodule_def)

lemma propertyMatch_prefix:
  assumes "propertyMatch key l \<noteq> None"
  shows "take (length key) l = key"
proof -
  have "rmatch (propertyRegex key) l"
    using assms by (auto simp: propertyMatch_def split: if_splits)
  then obtain v where "l = key @ v"
    unfolding propertyRegex_def rmatch_Lit_Seq by blast
  then show ?thesis by simp
qed

subsection \<open>The sections of the result\<close>

text \<open>A line cannot be both a path and a url assignment.\<close>

lemma path_url_exclusive:
  assumes "pathMatch l \<noteq> None"
  shows "urlMatch l = None"
proof (rule ccontr)
  assume "urlMatch l \<noteq> None"
  then have u: "take (length ''url'') l = ''url''"
    unfolding urlMatch_def by (rule propertyMatch_prefix)
  have p: "take (length ''path'') l = ''path''"
    using assms unfolding pathMatch_def by (rule propertyMatch_prefix)
  from p obtain r where "l = CHR ''p'' # r" by (cases l) auto
  then show False using u by simp
qed

lemma closeSection_Nil: "closeSection cur [] = cur"
  by (simp add: closeSection_def)

lemma closeSection_step:
  "closeSection (closeSection cur [l]) body = closeSection cur (l # body)"
  by (simp add: closeSection_def)

lemma scanLine_non_header:
  assumes "submoduleMatch l = None"
  shows "scanned (scanLine i l st) = scanned st"
    and "currentSubmodule (scanLine i l st)
           = map_option (\<lambda>cur. closeSection cur [l]) (currentSubmodule st)"
proof -
  show "scanned (scanLine i l st) = scanned st"
    using assms by (simp add: scanLine_def)
  show "currentSubmodule (scanLine i l st)
           = map_option (\<lambda>cur. closeSection cur [l]) (currentSubmodule st)"
  proof (cases "currentSubmodule st")
    case None
    then show ?thesis using assms by (simp add: scanLine_def)
  next
    case (Some cur)
    show ?thesis
    proof (cases "pathMatch l")
      case pn: None
      show ?thesis
      proof (cases "urlMatch l")
        case None
        then show ?thesis using assms Some pn by (simp add: scanLine_def closeSection_def)
      next
        case (Some u)
        then show ?thesis using assms \<open>currentSubmodule st = Some cur\<close> pn
          by (simp add: scanLine_def closeSection_def)
      qed
    next
      case (Some p)
      then have "urlMatch l = None" using path_url_exclusive [of l] by simp
      then show ?thesis using assms Some \<open>currentSubmodule st = Some cur\<close>
        by (simp add: scanLine_def closeSection_def)
    qed
  qed
qed

lemma scanLine_header:
  assumes "submoduleMatch l = Some n"
  shows "scanned (scanLine i l st)
           = scanned st @ (case currentSubmodule st of None \<Rightarrow> [] | Some cur \<Rightarrow> [cur])"
    and "currentSubmodule (scanLine i l st)
           = Some \<lparr>name = n, lineNumber = i + 1, path = None, url = None\<rparr>"
  using assms by (simp_all add: scanLine_def split: option.splits)

lemma sectionBody_simps:
  "sectionBody [] = []"
  "submoduleMatch l = None \<Longrightarrow> sectionBody (l # ls) = l # sectionBody ls"
  "submoduleMatch l = Some n \<Longrightarrow> sectionBody (l # ls) = []"
  by (simp_all add: sectionBody_def)

text \<open>
  The loop invariant: what is stored, the current section closed over the lines of its
  body still to come, and the sections of the lines still to come.
\<close>

lemma scanLines_sections:
  "finalSubmodules (scanLines i ls st)
     = scanned st
       @ (case currentSubmodule st of
            None \<Rightarrow> []
          | Some cur \<Rightarrow> [closeSection cur (sectionBody ls)])
       @ sections i ls"
proof (induction ls arbitrary: i st)
  case Nil
  show ?case
    by (simp add: finalSubmodules_def sectionBody_simps closeSection_Nil split: option.splits)
next
  case (Cons l ls)
  show ?case
  proof (cases "submoduleMatch l")
    case None
    show ?thesis
      unfolding scanLines.simps Cons.IH scanLine_non_header [OF None]
      using None
      by (cases "currentSubmodule st")
        (simp_all add: sectionBody_simps closeSection_step)
  next
    case (Some n)
    show ?thesis
      unfolding scanLines.simps Cons.IH scanLine_header [OF Some]
      using Some
      by (cases "currentSubmodule st")
        (simp_all add: sectionBody_simps closeSection_Nil)
  qed
qed

lemma submodules_sections:
  "submodules (validateGitmodules (JStr text)) = sections 0 (gitLines text)"
  unfolding validateGitmodules_JStr scanText_def scanLines_sections by simp

lemma sections_header:
  assumes "submoduleMatch h = Some n"
  shows "closeSection \<lparr>name = n, lineNumber = i + length A + 1, path = None, url = None\<rparr>
           (sectionBody rest) \<in> set (sections i (A @ h # rest))"
proof (induction A arbitrary: i)
  case Nil
  show ?case using assms by simp
next
  case (Cons a A)
  have "closeSection \<lparr>name = n, lineNumber = Suc i + length A + 1, path = None, url = None\<rparr>
           (sectionBody rest) \<in> set (sections (Suc i) (A @ h # rest))"
    by (rule Cons.IH)
  then show ?case by (cases "submoduleMatch a") simp_all
qed

lemma closeSection_fields:
  "name (closeSection cur body) = name cur"
  "lineNumber (closeSection cur body) = lineNumber cur"
  "path (closeSection cur body) = lastValue pathMatch (path cur) body"
  "url (closeSection cur body) = lastValue urlMatch (url cur) body"
  by (simp_all add: closeSection_def)

lemma header_section:
  assumes "gitLines text = A @ h # rest" "submoduleMatch h = Some n"
  shows "\<exists>s \<in> set (submodules (validateGitmodules (JStr text))).
           name s = n \<and> lineNumber s = length A + 1
           \<and> path s = lastValue pathMatch None (sectionBody rest)
           \<and> url s = lastValue urlMatch None (sectionBody rest)"
proof -
  let ?s = "closeSection \<lparr>name = n, lineNumber = 0 + length A + 1, path = None, url = None\<rparr>
              (sectionBody rest)"
  have "?s \<in> set (submodules (validateGitmodules (JStr text)))"
    unfolding submodules_sections assms(1) using assms(2) by (rule sections_header)
  moreover have "name ?s = n \<and> lineNumber ?s = length A + 1
           \<and> path ?s = lastValue pathMatch None (sectionBody rest)
           \<and> url ?s = lastValue urlMatch None (sectionBody rest)"
    by (simp add: closeSection_fields)
  ultimately show ?thesis by blast
qed

text \<open>
  C5. \<open>validateGitmodules\<close> is a total function into result records, for strings and
  for every other value, and \<^verbatim>\<open>isValid\<close> says that no error was collected. The
  submodules of the result are the sections of the trimmed non-blank lines: every line
  \<open>h\<close> that is a submodule header with the name \<open>n\<close> yields a submodule of that name,
  numbered as that line, whose path and url are the last values assigned in the body
  of the section; if the body leaves the path (the url) without a non-empty value, the
  errors contain the message that names \<open>n\<close>, and the result is invalid. And for every
  submodule of the result without a (non-empty) path or url, the errors contain the
  message naming that submodule, and the result is invalid.
\<close>

theorem validateGitmodules_missing_property:
  "(isValid (validateGitmodules v) \<longleftrightarrow> errors (validateGitmodules v) = [])
   \<and> submodules (validateGitmodules (JStr text)) = sections 0 (gitLines text)
   \<and> (\<forall>A h rest n. gitLines text = A @ h # rest \<and> submoduleMatch h = Some n \<longrightarrow>
         (\<exists>s \<in> set (submodules (validateGitmodules (JStr text))).
             name s = n \<and> lineNumber s = length A + 1
             \<and> path s = lastValue pathMatch None (sectionBody rest)
             \<and> url s = lastValue urlMatch None (sectionBody rest))
         \<and> (\<not> present (lastValue pathMatch None (sectionBody rest)) \<longrightarrow>
               missingPathMsg n \<in> set (errors (validateGitmodules (JStr text)))
               \<and> \<not> isValid (validateGitmodules (JStr text)))
         \<and> (\<not> present (lastValue urlMatch None (sectionBody rest)) \<longrightarrow>
               missingUrlMsg n \<in> set (errors (validateGitmodules (JStr text)))
               \<and> \<not> isValid (validateGitmodules (JStr text))))
   \<and> (\<forall>s \<in> set (submodules (validateGitmodules (JStr text))).
        (\<not> present (path s) \<longrightarrow>
           missingPathMsg (name s) \<in> set (errors (validateGitmodules (JStr text)))
           \<and> \<not> isValid (validateGitmodules (JStr text)))
      \<and> (\<not> present (url s) \<longrightarrow>
           missingUrlMsg (name s) \<in> set (errors (validateGitmodules (JStr text)))
           \<and> \<not> isValid (validateGitmodules (JStr text))))"
proof -
  let ?r = "validateGitmodules (JStr text)"
  have total: "isValid (validateGitmodules v) \<longleftrightarrow> errors (validateGitmodules v) = []"
    by (rule validateGitmodules_isValid)
  have each: "\<forall>s \<in> set (submodules ?r).
        (\<not> present (path s) \<longrightarrow> missingPathMsg (name s) \<in> set (errors ?r) \<and> \<not> isValid ?r)
      \<and> (\<not> present (url s) \<longrightarrow> missingUrlMsg (name s) \<in> set (errors ?r) \<and> \<not> isValid ?r)"
    using checkSubmodule_in_errors [of _ "text"] checkSubmodule_missing by blast
  have header: "(\<exists>s \<in> set (submodules ?r).
             name s = n \<and> lineNumber s = length A + 1
             \<and> path s = lastValue pathMatch None (sectionBody rest)
             \<and> url s = lastValue urlMatch None (sectionBody rest))
         \<and> (\<not> present (lastValue pathMatch None (sectionBody rest)) \<longrightarrow>
               missingPathMsg n \<in> set (errors ?r) \<and> \<not> isValid ?r)
         \<and> (\<not> present (lastValue urlMatch None (sectionBody rest)) \<longrightarrow>
               missingUrlMsg n \<in> set (errors ?r) \<and> \<not> isValid ?r)"
    if "gitLines text = A @ h # rest \<and> submoduleMatch h = Some n" for A h rest n
  proof -
    from that have "\<exists>s \<in> set (submodules ?r).
           name s = n \<and> lineNumber s = length A + 1
           \<and> path s = lastValue pathMatch None (sectionBody rest)
           \<and> url s = lastValue urlMatch None (sectionBody rest)"
      using header_section by blast
    then obtain s where s: "s \<in> set (submodules ?r)" "name s = n" "lineNumber s = length A + 1"
      "path s = lastValue pathMatch None (sectionBody rest)"
      "url s = lastValue urlMatch None (sectionBody rest)" by blast
    have "(\<not> present (path s) \<longrightarrow> missingPathMsg (name s) \<in> set (errors ?r) \<and> \<not> isValid ?r)
      \<and> (\<not> present (url s) \<longrightarrow> missingUrlMsg (name s) \<in> set (errors ?r) \<and> \<not> isValid ?r)"
      using each s(1) by blast
    then show ?thesis using s by auto
  qed
  show ?thesis
    using total submodules_sections [of "text"] header each by blast
qed

theorem validateGitmodules_missing_property_witness:
  \<open>gitLines ''[submodule "a"]\<newline>[submodule "b"]\<newline>path = b\<newline>url = https://h/b''
     = [] @ ''[submodule "a"]'' # [''[submodule "b"]'', ''path = b'', ''url = https://h/b'']
   \<and> submoduleMatch ''[submodule "a"]'' = Some ''a''
   \<and> submodules (validateGitmodules
        (JStr ''[submodule "a"]\<newline>[submodule "b"]\<newline>path = b\<newline>url = https://h/b''))
     = [\<lparr>name = ''a'', lineNumber = 1, path = None, url = None\<rparr>,
        \<lparr>name = ''b'', lineNumber = 2, path = Some ''b'', url = Some ''https://h/b''\<rparr>]
   \<and> ''Submodule "a" missing path property''
     \<in> set (errors (validateGitmodules
        (JStr ''[submodule "a"]\<newline>[submodule "b"]\<newline>path = b\<newline>url = https://h/b'')))
   \<and> ''Submodule "a" missing url property''
     \<in> set (errors (validateGitmodules
        (JStr ''[submodule "a"]\<newline>[submodule "b"]\<newline>path = b\<newline>url = https://h/b'')))
   \<and> \<not> isValid (validateGitmodules
        (JStr ''[submodule "a"]\<newline>[submodule "b"]\<newline>path = b\<newline>url = https://h/b''))
   \<and> \<not> isValid (validateGitmodules (JNum ''7''))\<close>
proof -
  let ?t = \<open>''[submodule "a"]\<newline>[submodule "b"]\<newline>path = b\<newline>url = https://h/b''\<close>
  let ?h = \<open>''[submodule "a"]''\<close>
  let ?rest = \<open>[''[submodule "b"]'', ''path = b'', ''url = https://h/b'']\<close>
  have ls: "gitLines ?t = [] @ ?h # ?rest"
    by (simp add: gitLines_def jsTrim_def isWhiteSpace_def)
  have h: "submoduleMatch ?h = Some ''a''"
    by (simp add: git_eval)
  have body: "sectionBody ?rest = []"
    by (simp add: sectionBody_def git_eval)
  have np: "\<not> present (lastValue pathMatch None (sectionBody ?rest))"
    "\<not> present (lastValue urlMatch None (sectionBody ?rest))"
    unfolding body by simp_all
  have sub: "submodules (validateGitmodules (JStr ?t))
     = [\<lparr>name = ''a'', lineNumber = 1, path = None, url = None\<rparr>,
        \<lparr>name = ''b'', lineNumber = 2, path = Some ''b'', url = Some ''https://h/b''\<rparr>]"
    by (simp add: git_eval)
  have "missingPathMsg ''a'' \<in> set (errors (validateGitmodules (JStr ?t)))
      \<and> missingUrlMsg ''a'' \<in> set (errors (validateGitmodules (JStr ?t)))
      \<and> \<not> isValid (validateGitmodules (JStr ?t))"
    using validateGitmodules_missing_property [of "JStr ?t" ?t] ls h np by blast
  moreover have "\<not> isValid (validateGitmodules (JNum ''7''))"
    using validateGitmodules_missing_property [of "JNum ''7''" ?t]
    by (simp add: validateGitmodules_def)
  ultimately show ?thesis using ls h sub by (simp add: missingPathMsg_def missingUrlMsg_def)
qed

subsection \<open>The url scheme\<close>

lemma urlSchemeRegex_iff:
  "rmatch urlSchemeRegex w \<longleftrightarrow>
     w = ''http://'' \<or> w = ''https://'' \<or> w = ''git@'' \<or> w = ''ssh://''"
  unfolding urlSchemeRegex_def Opt_def rmatch.simps(4) rmatch_Lit_Seq rmatch_Seq_Alt
    rmatch_Seq_Eps rmatch_Lit
  by auto

lemma take_eq_prefix: "(\<exists>i. take i s = w) \<longleftrightarrow> prefix w s"
proof
  assume "\<exists>i. take i s = w"
  then show "prefix w s" using take_is_prefix by blast
next
  assume "prefix w s"
  then obtain z where "s = w @ z" by (auto simp: prefix_def)
  then have "take (length w) s = w" by simp
  then show "\<exists>i. take i s = w" by blast
qed

lemma rmatch_prefix_iff: "rmatch_prefix r s \<longleftrightarrow> (\<exists>i. rmatch r (take i s))"
proof
  assume "rmatch_prefix r s"
  then show "\<exists>i. rmatch r (take i s)"
    unfolding rmatch_prefix_def list_ex_iff by blast
next
  assume "\<exists>i. rmatch r (take i s)"
  then obtain i where i: "rmatch r (take i s)" by blast
  have "min i (length s) \<in> set [0..<Suc (length s)]" by auto
  moreover have "take (min i (length s)) s = take i s" by (simp add: min_def)
  ultimately show "rmatch_prefix r s"
    unfolding rmatch_prefix_def list_ex_iff using i by metis
qed

lemma urlScheme_accepted: "rmatch_prefix urlSchemeRegex u \<longleftrightarrow> acceptedSchemes u"
  unfolding rmatch_prefix_iff urlSchemeRegex_iff acceptedSchemes_def
  using take_eq_prefix [of u] by blast

lemma invalidUrl_iff:
  assumes "url s = Some u" "u \<noteq> []"
  shows "invalidUrlMsg (name s) u \<in> set (checkSubmodule s) \<longleftrightarrow> \<not> acceptedSchemes u"
  using assms
  by (simp add: checkSubmodule_def urlScheme_accepted invalidUrlMsg_def missingPathMsg_def)

text \<open>
  On the code, every section whose url begins with none of \<^verbatim>\<open>http://\<close>, \<^verbatim>\<open>https://\<close>,
  \<^verbatim>\<open>git@\<close>, \<^verbatim>\<open>ssh://\<close> draws the invalid-URL error that names it.
\<close>

lemma header_url_checked:
  assumes "gitLines text = A @ h # rest" "submoduleMatch h = Some n"
    and "lastValue urlMatch None (sectionBody rest) = Some u" "u \<noteq> []"
    and "\<not> acceptedSchemes u"
  shows "invalidUrlMsg n u \<in> set (errors (validateGitmodules (JStr text)))"
    and "\<not> isValid (validateGitmodules (JStr text))"
proof -
  from assms(1,2) have "\<exists>s \<in> set (submodules (validateGitmodules (JStr text))).
           name s = n \<and> lineNumber s = length A + 1
           \<and> path s = lastValue pathMatch None (sectionBody rest)
           \<and> url s = lastValue urlMatch None (sectionBody rest)"
    by (rule header_section)
  then obtain s where s: "s \<in> set (submodules (validateGitmodules (JStr text)))"
    "name s = n" "url s = Some u" using assms(3) by auto
  have m: "invalidUrlMsg n u \<in> set (checkSubmodule s)"
    using invalidUrl_iff [of s u] s(2,3) assms(4,5) by simp
  show "invalidUrlMsg n u \<in> set (errors (validateGitmodules (JStr text)))"
    using s(1) m by (rule checkSubmodule_in_errors)
  show "\<not> isValid (validateGitmodules (JStr text))"
    using s(1) m by (rule checkSubmodule_in_errors)
qed

text \<open>
  C6 (evaluation at the failing input). The url \<^verbatim>\<open>http://example.com/a.git\<close> begins
  with none of \<^verbatim>\<open>https://\<close>, \<^verbatim>\<open>git@\<close>, \<^verbatim>\<open>ssh://\<close>, and \<open>validateGitmodules\<close> accepts the
  submodule that has it: the result is valid and has no error.
\<close>

theorem validateGitmodules_http_accepted:
  \<open>\<not> specSchemes ''http://example.com/a.git''
   \<and> validateGitmodules
       (JStr ''[submodule "a"]\<newline>  path = a\<newline>  url = http://example.com/a.git'')
     = \<lparr>isValid = True, errors = [],
        submodules = [\<lparr>name = ''a'', lineNumber = 1, path = Some ''a'',
                        url = Some ''http://example.com/a.git''\<rparr>]\<rparr>\<close>
  by (simp add: git_eval specSchemes_def)

theorem validateGitmodules_http_accepted_witness:
  \<open>isValid (validateGitmodules
       (JStr ''[submodule "a"]\<newline>  path = a\<newline>  url = http://example.com/a.git''))
   \<and> errors (validateGitmodules
       (JStr ''[submodule "a"]\<newline>  path = a\<newline>  url = http://example.com/a.git'')) = []\<close>
  using validateGitmodules_http_accepted by simp

subsection \<open>Line errors\<close>


























text \<open>
  The number in a line error counts the non-blank lines: the header \<^verbatim>\<open>[core]\<close> on line 2,
  after a blank line, is reported at line 1.
\<close>

lemma blank_line_shifts_number:
  "errors (validateGitmodules (JStr ''\<newline>[core]'')) = [''Invalid section header at line 1: [core]'']"
  by (simp add: git_eval invalidHeaderMsg_def)



end
